theory Spec2Isabelle
  imports Main "HOL-Library.AList" "HOL-Library.Word"
begin

section \<open>The session manager of the fan-club front end (AuthContext)\<close>

text \<open>
  The development embeds the authentication context of the front end: the \<open>AuthProvider\<close>
  component with its two state cells (\<open>token\<close>, \<open>user\<close>), their initialisers reading
  \<open>localStorage\<close>, the two persistence effects, and the operations \<open>login\<close>, \<open>signup\<close> and
  \<open>logout\<close>. The platform the code runs on (strings, JSON values, \<open>JSON.stringify\<close>,
  \<open>JSON.parse\<close>, \<open>String\<close>, truthiness, property access, \<open>fetch\<close> responses,
  \<open>localStorage\<close>) is modelled first; the repository's own functions follow, statement by
  statement.
\<close>

subsection \<open>Strings\<close>

text \<open>
  A string is a sequence of 16-bit code units. The string literals of the program are ASCII:
  \<open>js\<close> gives the string of a literal, \<open>cu\<close> the code unit of a character.
\<close>

type_synonym code_unit = "16 word"

type_synonym jstring = "code_unit list"

abbreviation cu :: "char \<Rightarrow> code_unit" where
  "cu c \<equiv> of_char c"

definition js :: "string \<Rightarrow> jstring" where
  "js s = map cu s"

subsection \<open>Numbers\<close>

text \<open>
  A number of a parsed body is a double: finite, or one of the infinities that a literal
  beyond the range of the doubles (\<open>1e400\<close>) denotes. The embedding does no arithmetic, and
  the code does none: it tests a number for truth, turns it into a string and serializes it.
  A finite number is held by its decimal text, the one \<open>String\<close> returns for it
  (\<open>Number::toString\<close>: \<open>1.5\<close>, \<open>-3\<close>, \<open>1e+21\<close>), which identifies it; negative zero,
  whose text is that of zero, is a value of its own. Which number a literal of a JSON text
  denotes is the platform's rounding, a parameter of \<open>JSON_parse\<close> below.
\<close>

datatype number = Finite jstring | NegZero | PosInfinity | NegInfinity

text \<open>\<open>String(n)\<close>.\<close>

definition number_text :: "number \<Rightarrow> jstring" where
  "number_text n =
     (case n of
        Finite t \<Rightarrow> t
      | NegZero \<Rightarrow> js ''0''
      | PosInfinity \<Rightarrow> js ''Infinity''
      | NegInfinity \<Rightarrow> js ''-Infinity'')"

text \<open>
  What \<open>JSON.stringify\<close> writes for a number: its text when it is finite, and \<open>null\<close>
  (\<open>None\<close> here) when it is not.
\<close>

definition number_json :: "number \<Rightarrow> jstring option" where
  "number_json n =
     (case n of
        Finite t \<Rightarrow> Some t
      | NegZero \<Rightarrow> Some (js ''0'')
      | PosInfinity \<Rightarrow> None
      | NegInfinity \<Rightarrow> None)"

text \<open>\<open>ToBoolean\<close> of a number: the two zeros are falsy.\<close>

definition number_truthy :: "number \<Rightarrow> bool" where
  "number_truthy n =
     (case n of
        Finite t \<Rightarrow> t \<noteq> js ''0''
      | NegZero \<Rightarrow> False
      | PosInfinity \<Rightarrow> True
      | NegInfinity \<Rightarrow> True)"

subsection \<open>JavaScript values that come out of JSON\<close>

text \<open>
  A response body, once parsed, is a JSON value. An object is the list of its own properties
  in the order in which they are enumerated. \<open>null\<close> is \<open>JNull\<close>; the value \<open>undefined\<close>
  of a missing property is \<open>None\<close> of type \<open>json option\<close>.
\<close>

datatype json =
    JNull
  | JBool bool
  | JNum number
  | JStr jstring
  | JArr "json list"
  | JObj "(jstring \<times> json) list"

text \<open>A thrown value: an \<open>Error\<close> object, of which the code only ever reads \<open>message\<close>.\<close>

datatype exn = Exn (message: jstring)

text \<open>\<open>ToBoolean\<close>: what \<open>if (v)\<close>, \<open>v ? a : b\<close> and \<open>v || w\<close> test.\<close>

fun truthy :: "json \<Rightarrow> bool" where
  "truthy JNull = False"
| "truthy (JBool b) = b"
| "truthy (JNum n) = number_truthy n"
| "truthy (JStr s) = (s \<noteq> [])"
| "truthy (JArr xs) = True"
| "truthy (JObj kvs) = True"

text \<open>
  The value of an expression that \<open>if (e)\<close> has found truthy: \<open>undefined\<close> and the falsy
  values give \<open>None\<close>.
\<close>

definition truthy_value :: "json option \<Rightarrow> json option" where
  "truthy_value d = (case d of None \<Rightarrow> None | Some v \<Rightarrow> if truthy v then Some v else None)"

text \<open>
  Property access \<open>v.k\<close>: a \<open>TypeError\<close> on \<open>null\<close>, the property's value on an object that
  has it, \<open>undefined\<close> otherwise (none of the names the code reads is a property of a string,
  number, boolean or array). The message is the one V8 gives.
\<close>

definition null_property_message :: "jstring \<Rightarrow> jstring" where
  "null_property_message k =
     js ''Cannot read properties of null (reading '' @ [cu (CHR 0x27)] @ k @ [cu (CHR 0x27)] @ js '')''"

fun get_property :: "json \<Rightarrow> jstring \<Rightarrow> exn + json option" where
  "get_property JNull k = Inl (Exn (null_property_message k))"
| "get_property (JObj kvs) k = Inr (map_of kvs k)"
| "get_property v k = Inr None"

text \<open>The operator \<open>a ?? b\<close>: \<open>b\<close> is evaluated only when \<open>a\<close> is \<open>null\<close> or \<open>undefined\<close>.\<close>

definition nullish :: "json option \<Rightarrow> bool" where
  "nullish v = (v = None \<or> v = Some JNull)"

definition coalesce :: "exn + json option \<Rightarrow> exn + json option \<Rightarrow> exn + json option" where
  "coalesce a b = (case a of Inl e \<Rightarrow> Inl e | Inr v \<Rightarrow> if nullish v then b else Inr v)"

text \<open>\<open>a ?? d\<close> for a default \<open>d\<close> that is a value: the result is never \<open>undefined\<close>.\<close>

definition or_else :: "exn + json option \<Rightarrow> json \<Rightarrow> exn + json" where
  "or_else a d =
     (case a of Inl e \<Rightarrow> Inl e | Inr None \<Rightarrow> Inr d | Inr (Some v) \<Rightarrow> if v = JNull then Inr d else Inr v)"

subsection \<open>Values as text\<close>

text \<open>The decimal digits of a natural number (the status in a template literal).\<close>

fun digits :: "nat \<Rightarrow> jstring" where
  "digits n =
     (if n < 10 then [js ''0123456789'' ! n]
      else digits (n div 10) @ [js ''0123456789'' ! (n mod 10)])"

fun join :: "jstring \<Rightarrow> jstring list \<Rightarrow> jstring" where
  "join sep [] = []"
| "join sep [x] = x"
| "join sep (x # y # ys) = x @ sep @ join sep (y # ys)"

text \<open>
  \<open>String(v)\<close>: a string is itself, an array joins the strings of its elements with commas
  (\<open>null\<close> elements give the empty string), an object is \<open>[object Object]\<close>.
\<close>

fun ToString :: "json \<Rightarrow> jstring" where
  "ToString JNull = js ''null''"
| "ToString (JBool b) = (if b then js ''true'' else js ''false'')"
| "ToString (JNum n) = number_text n"
| "ToString (JStr s) = s"
| "ToString (JArr xs) = join (js '','') (map (\<lambda>x. if x = JNull then [] else ToString x) xs)"
| "ToString (JObj kvs) = js ''[object Object]''"

subsection \<open>\<open>JSON.stringify\<close>\<close>

text \<open>
  The compact form of ECMAScript: no white space, strings in double quotes. In a string
  (\<open>QuoteJSONString\<close>) the quote, the backslash and the control characters are escaped, and
  so is a surrogate that is not half of a pair; a high surrogate followed by a low one is
  one code point and is written as it is.
\<close>

definition hex_digit :: "nat \<Rightarrow> code_unit" where
  "hex_digit d = js ''0123456789abcdef'' ! d"

definition unicode_escape :: "code_unit \<Rightarrow> jstring" where
  "unicode_escape c =
     [cu (CHR 0x5C), cu (CHR ''u''),
      hex_digit (unat c div 4096), hex_digit (unat c div 256 mod 16),
      hex_digit (unat c div 16 mod 16), hex_digit (unat c mod 16)]"

definition is_high_surrogate :: "code_unit \<Rightarrow> bool" where
  "is_high_surrogate c = (0xD800 \<le> c \<and> c \<le> 0xDBFF)"

definition is_low_surrogate :: "code_unit \<Rightarrow> bool" where
  "is_low_surrogate c = (0xDC00 \<le> c \<and> c \<le> 0xDFFF)"

text \<open>A code unit that is not half of a surrogate pair.\<close>

definition escape_unit :: "code_unit \<Rightarrow> jstring" where
  "escape_unit c =
     (if c = cu (CHR 0x22) then [cu (CHR 0x5C), cu (CHR 0x22)]
      else if c = cu (CHR 0x5C) then [cu (CHR 0x5C), cu (CHR 0x5C)]
      else if c = cu (CHR 0x08) then [cu (CHR 0x5C), cu (CHR ''b'')]
      else if c = cu (CHR 0x0C) then [cu (CHR 0x5C), cu (CHR ''f'')]
      else if c = cu (CHR 0x0A) then [cu (CHR 0x5C), cu (CHR ''n'')]
      else if c = cu (CHR 0x0D) then [cu (CHR 0x5C), cu (CHR ''r'')]
      else if c = cu (CHR 0x09) then [cu (CHR 0x5C), cu (CHR ''t'')]
      else if c < 0x20 \<or> is_high_surrogate c \<or> is_low_surrogate c then unicode_escape c
      else [c])"

fun escape_units :: "jstring \<Rightarrow> jstring" where
  "escape_units [] = []"
| "escape_units [c] = escape_unit c"
| "escape_units (c # d # cs) =
     (if is_high_surrogate c \<and> is_low_surrogate d then c # d # escape_units cs
      else escape_unit c @ escape_units (d # cs))"

definition quote :: "jstring \<Rightarrow> jstring" where
  "quote s = cu (CHR 0x22) # escape_units s @ [cu (CHR 0x22)]"

fun JSON_stringify :: "json \<Rightarrow> jstring" where
  "JSON_stringify JNull = js ''null''"
| "JSON_stringify (JBool b) = (if b then js ''true'' else js ''false'')"
| "JSON_stringify (JNum n) = (case number_json n of None \<Rightarrow> js ''null'' | Some t \<Rightarrow> t)"
| "JSON_stringify (JStr s) = quote s"
| "JSON_stringify (JArr xs) = js ''['' @ join (js '','') (map JSON_stringify xs) @ js '']''"
| "JSON_stringify (JObj kvs) =
     js ''{'' @ join (js '','') (map (\<lambda>kv. quote (fst kv) @ js '':'' @ JSON_stringify (snd kv)) kvs) @ js ''}''"

subsection \<open>The properties of an object, in order\<close>

text \<open>
  An object enumerates its properties with the array indices first, in ascending order, and
  the other keys after them in the order of their creation. An array index is the canonical
  decimal text of a natural number below \<open>2^32 - 1\<close>.
\<close>

definition is_digit :: "code_unit \<Rightarrow> bool" where
  "is_digit c = (cu (CHR ''0'') \<le> c \<and> c \<le> cu (CHR ''9''))"

definition digit_val :: "code_unit \<Rightarrow> nat" where
  "digit_val c = unat c - 48"

definition array_index :: "jstring \<Rightarrow> nat option" where
  "array_index k =
     (if k \<noteq> [] \<and> list_all is_digit k \<and> (length k = 1 \<or> hd k \<noteq> cu (CHR ''0'')) \<and>
         foldl (\<lambda>a c. 10 * a + digit_val c) 0 k < 2 ^ 32 - 1
      then Some (foldl (\<lambda>a c. 10 * a + digit_val c) 0 k)
      else None)"

text \<open>
  The place of a new array index \<open>n\<close> among the properties: before the first property that
  is not a smaller array index.
\<close>

fun insert_index :: "nat \<Rightarrow> jstring \<Rightarrow> json \<Rightarrow> (jstring \<times> json) list \<Rightarrow> (jstring \<times> json) list" where
  "insert_index n k v [] = [(k, v)]"
| "insert_index n k v (p # ps) =
     (case array_index (fst p) of
        None \<Rightarrow> (k, v) # p # ps
      | Some m \<Rightarrow> if m < n then p # insert_index n k v ps else (k, v) # p # ps)"

text \<open>
  \<open>CreateDataProperty\<close>: an existing property keeps its place and takes the new value; a
  new one is put where the enumeration order has it.
\<close>

definition define_property :: "jstring \<Rightarrow> json \<Rightarrow> (jstring \<times> json) list \<Rightarrow> (jstring \<times> json) list" where
  "define_property k v ps =
     (if map_of ps k \<noteq> None then AList.update k v ps
      else
        (case array_index k of
           None \<Rightarrow> ps @ [(k, v)]
         | Some n \<Rightarrow> insert_index n k v ps))"

text \<open>The keys of an object are in enumeration order.\<close>

fun ordered_keys :: "jstring list \<Rightarrow> bool" where
  "ordered_keys [] = True"
| "ordered_keys [k] = True"
| "ordered_keys (k # k' # ks) =
     ((case array_index k' of
         None \<Rightarrow> True
       | Some n \<Rightarrow> (case array_index k of None \<Rightarrow> False | Some m \<Rightarrow> m < n)) \<and>
      ordered_keys (k' # ks))"

subsection \<open>\<open>JSON.parse\<close>\<close>

text \<open>
  A recursive-descent parser of the JSON grammar. White space is allowed around every token.
  A number literal is the longest run of the characters a number is made of, checked against
  the grammar of numbers (an optional minus sign, an integer part without leading zeros, an
  optional fraction, an optional exponent); the number it denotes is given by the platform's
  reading \<open>rd\<close> of the literal. The properties of an object are created in the order of the
  text, a repeated key taking its last value.
\<close>

definition is_ws :: "code_unit \<Rightarrow> bool" where
  "is_ws c = (c = cu (CHR 0x20) \<or> c = cu (CHR 0x09) \<or> c = cu (CHR 0x0A) \<or> c = cu (CHR 0x0D))"

definition skip_ws :: "jstring \<Rightarrow> jstring" where
  "skip_ws cs = dropWhile is_ws cs"

definition hex_val :: "code_unit \<Rightarrow> nat option" where
  "hex_val c =
     (if cu (CHR ''0'') \<le> c \<and> c \<le> cu (CHR ''9'') then Some (unat c - 48)
      else if cu (CHR ''a'') \<le> c \<and> c \<le> cu (CHR ''f'') then Some (unat c - 87)
      else if cu (CHR ''A'') \<le> c \<and> c \<le> cu (CHR ''F'') then Some (unat c - 55)
      else None)"

definition unescape :: "code_unit \<Rightarrow> code_unit option" where
  "unescape e =
     (if e = cu (CHR 0x22) then Some (cu (CHR 0x22))
      else if e = cu (CHR 0x5C) then Some (cu (CHR 0x5C))
      else if e = cu (CHR ''/'') then Some (cu (CHR ''/''))
      else if e = cu (CHR ''b'') then Some (cu (CHR 0x08))
      else if e = cu (CHR ''f'') then Some (cu (CHR 0x0C))
      else if e = cu (CHR ''n'') then Some (cu (CHR 0x0A))
      else if e = cu (CHR ''r'') then Some (cu (CHR 0x0D))
      else if e = cu (CHR ''t'') then Some (cu (CHR 0x09))
      else None)"

definition hex4 :: "code_unit \<Rightarrow> code_unit \<Rightarrow> code_unit \<Rightarrow> code_unit \<Rightarrow> nat option" where
  "hex4 a b c d =
     (case (hex_val a, hex_val b, hex_val c, hex_val d) of
        (Some x, Some y, Some z, Some w) \<Rightarrow> Some (((x * 16 + y) * 16 + z) * 16 + w)
      | _ \<Rightarrow> None)"

text \<open>The characters of a string literal, after its opening quote, up to the closing one.\<close>

fun parse_string :: "jstring \<Rightarrow> (jstring \<times> jstring) option" where
  "parse_string [] = None"
| "parse_string (c # cs) =
     (if c = cu (CHR 0x22) then Some ([], cs)
      else if c = cu (CHR 0x5C) then
        (case cs of
           [] \<Rightarrow> None
         | e # cs1 \<Rightarrow>
            if e = cu (CHR ''u'') then
              (case cs1 of
                 h1 # h2 # h3 # h4 # cs2 \<Rightarrow>
                   (case hex4 h1 h2 h3 h4 of
                      None \<Rightarrow> None
                    | Some n \<Rightarrow>
                       (case parse_string cs2 of
                          None \<Rightarrow> None
                        | Some (s, r) \<Rightarrow> Some (word_of_nat n # s, r)))
               | _ \<Rightarrow> None)
            else
              (case unescape e of
                 None \<Rightarrow> None
               | Some d \<Rightarrow>
                  (case parse_string cs1 of
                     None \<Rightarrow> None
                   | Some (s, r) \<Rightarrow> Some (d # s, r))))
      else if c < 0x20 then None
      else
        (case parse_string cs of
           None \<Rightarrow> None
         | Some (s, r) \<Rightarrow> Some (c # s, r)))"

text \<open>
  The grammar of number literals, as the automaton that reads one: after nothing, after the
  minus sign, after a leading zero, inside the integer part, after the point, inside the
  fraction, after the exponent mark, after the sign of the exponent, inside the exponent.
\<close>

datatype number_state =
  NStart | NMinus | NZero | NInt | NPoint | NFrac | NMark | NSign | NExp

definition number_step :: "number_state \<Rightarrow> code_unit \<Rightarrow> number_state option" where
  "number_step q c =
     (case q of
        NStart \<Rightarrow>
          if c = cu (CHR ''-'') then Some NMinus
          else if c = cu (CHR ''0'') then Some NZero
          else if is_digit c then Some NInt
          else None
      | NMinus \<Rightarrow>
          if c = cu (CHR ''0'') then Some NZero
          else if is_digit c then Some NInt
          else None
      | NZero \<Rightarrow>
          if c = cu (CHR ''.'') then Some NPoint
          else if c = cu (CHR ''e'') \<or> c = cu (CHR ''E'') then Some NMark
          else None
      | NInt \<Rightarrow>
          if is_digit c then Some NInt
          else if c = cu (CHR ''.'') then Some NPoint
          else if c = cu (CHR ''e'') \<or> c = cu (CHR ''E'') then Some NMark
          else None
      | NPoint \<Rightarrow> if is_digit c then Some NFrac else None
      | NFrac \<Rightarrow>
          if is_digit c then Some NFrac
          else if c = cu (CHR ''e'') \<or> c = cu (CHR ''E'') then Some NMark
          else None
      | NMark \<Rightarrow>
          if c = cu (CHR ''+'') \<or> c = cu (CHR ''-'') then Some NSign
          else if is_digit c then Some NExp
          else None
      | NSign \<Rightarrow> if is_digit c then Some NExp else None
      | NExp \<Rightarrow> if is_digit c then Some NExp else None)"

fun number_run :: "number_state \<Rightarrow> jstring \<Rightarrow> number_state option" where
  "number_run q [] = Some q"
| "number_run q (c # cs) = (case number_step q c of None \<Rightarrow> None | Some q' \<Rightarrow> number_run q' cs)"

definition number_literal :: "jstring \<Rightarrow> bool" where
  "number_literal t =
     (case number_run NStart t of
        None \<Rightarrow> False
      | Some q \<Rightarrow> q = NZero \<or> q = NInt \<or> q = NFrac \<or> q = NExp)"

definition is_number_unit :: "code_unit \<Rightarrow> bool" where
  "is_number_unit c =
     (is_digit c \<or> c = cu (CHR ''-'') \<or> c = cu (CHR ''+'') \<or> c = cu (CHR ''.'') \<or>
      c = cu (CHR ''e'') \<or> c = cu (CHR ''E''))"

definition parse_number :: "(jstring \<Rightarrow> number) \<Rightarrow> jstring \<Rightarrow> (json \<times> jstring) option" where
  "parse_number rd cs =
     (if number_literal (takeWhile is_number_unit cs)
      then Some (JNum (rd (takeWhile is_number_unit cs)), dropWhile is_number_unit cs)
      else None)"

definition parse_literal :: "jstring \<Rightarrow> json \<Rightarrow> jstring \<Rightarrow> (json \<times> jstring) option" where
  "parse_literal w v cs = (if take (length w) cs = w then Some (v, drop (length w) cs) else None)"

text \<open>
  The recursion of the grammar, on a bound that every call lowers only after a character has
  been consumed. \<open>JSON_parse\<close> starts it above the length of the text, where its value no
  longer matters (\<open>JSON_parse_bound\<close> below).
\<close>

fun parse_value :: "(jstring \<Rightarrow> number) \<Rightarrow> nat \<Rightarrow> jstring \<Rightarrow> (json \<times> jstring) option"
  and parse_elements :: "(jstring \<Rightarrow> number) \<Rightarrow> nat \<Rightarrow> jstring \<Rightarrow> (json list \<times> jstring) option"
  and parse_member :: "(jstring \<Rightarrow> number) \<Rightarrow> nat \<Rightarrow> jstring \<Rightarrow> ((jstring \<times> json) \<times> jstring) option"
  and parse_members :: "(jstring \<Rightarrow> number) \<Rightarrow> nat \<Rightarrow> jstring \<Rightarrow> ((jstring \<times> json) list \<times> jstring) option"
where
  "parse_value rd 0 cs = None"
| "parse_value rd (Suc n) cs =
     (case skip_ws cs of
        [] \<Rightarrow> None
      | c # rest \<Rightarrow>
         if c = cu (CHR ''n'') then parse_literal (js ''ull'') JNull rest
         else if c = cu (CHR ''t'') then parse_literal (js ''rue'') (JBool True) rest
         else if c = cu (CHR ''f'') then parse_literal (js ''alse'') (JBool False) rest
         else if c = cu (CHR 0x22) then
           (case parse_string rest of None \<Rightarrow> None | Some (s, r) \<Rightarrow> Some (JStr s, r))
         else if c = cu (CHR ''['') then
           (case skip_ws rest of
              [] \<Rightarrow> None
            | d # r0 \<Rightarrow>
               if d = cu (CHR '']'') then Some (JArr [], r0)
               else
                 (case parse_value rd n rest of
                    None \<Rightarrow> None
                  | Some (v, r1) \<Rightarrow>
                     (case parse_elements rd n r1 of
                        None \<Rightarrow> None
                      | Some (vs, r2) \<Rightarrow> Some (JArr (v # vs), r2))))
         else if c = cu (CHR ''{'') then
           (case skip_ws rest of
              [] \<Rightarrow> None
            | d # r0 \<Rightarrow>
               if d = cu (CHR ''}'') then Some (JObj [], r0)
               else
                 (case parse_member rd n rest of
                    None \<Rightarrow> None
                  | Some (kv, r1) \<Rightarrow>
                     (case parse_members rd n r1 of
                        None \<Rightarrow> None
                      | Some (kvs, r2) \<Rightarrow>
                         Some (JObj (foldl (\<lambda>ps p. define_property (fst p) (snd p) ps) [] (kv # kvs)), r2))))
         else parse_number rd (c # rest))"
| "parse_elements rd 0 cs = None"
| "parse_elements rd (Suc n) cs =
     (case skip_ws cs of
        [] \<Rightarrow> None
      | c # rest \<Rightarrow>
         if c = cu (CHR '']'') then Some ([], rest)
         else if c = cu (CHR '','') then
           (case parse_value rd n rest of
              None \<Rightarrow> None
            | Some (v, r1) \<Rightarrow>
               (case parse_elements rd n r1 of
                  None \<Rightarrow> None
                | Some (vs, r2) \<Rightarrow> Some (v # vs, r2)))
         else None)"
| "parse_member rd 0 cs = None"
| "parse_member rd (Suc n) cs =
     (case skip_ws cs of
        [] \<Rightarrow> None
      | c # rest \<Rightarrow>
         if c = cu (CHR 0x22) then
           (case parse_string rest of
              None \<Rightarrow> None
            | Some (k, r0) \<Rightarrow>
               (case skip_ws r0 of
                  [] \<Rightarrow> None
                | d # r1 \<Rightarrow>
                   if d = cu (CHR '':'') then
                     (case parse_value rd n r1 of
                        None \<Rightarrow> None
                      | Some (v, r2) \<Rightarrow> Some ((k, v), r2))
                   else None))
         else None)"
| "parse_members rd 0 cs = None"
| "parse_members rd (Suc n) cs =
     (case skip_ws cs of
        [] \<Rightarrow> None
      | c # rest \<Rightarrow>
         if c = cu (CHR ''}'') then Some ([], rest)
         else if c = cu (CHR '','') then
           (case parse_member rd n rest of
              None \<Rightarrow> None
            | Some (kv, r1) \<Rightarrow>
               (case parse_members rd n r1 of
                  None \<Rightarrow> None
                | Some (kvs, r2) \<Rightarrow> Some (kv # kvs, r2)))
         else None)"

definition JSON_parse :: "(jstring \<Rightarrow> number) \<Rightarrow> jstring \<Rightarrow> exn + json" where
  "JSON_parse rd s =
     (case parse_value rd (Suc (length s)) s of
        None \<Rightarrow> Inl (Exn (js ''Unexpected token in JSON''))
      | Some (v, rest) \<Rightarrow>
         if skip_ws rest = [] then Inr v else Inl (Exn (js ''Unexpected token in JSON'')))"

subsection \<open>\<open>fetch\<close> and its responses\<close>

text \<open>
  A response carries its status and what reading its body gives: \<open>json_result\<close> is how
  \<open>await res.json()\<close> settles, \<open>text_result\<close> how \<open>await res.text()\<close> settles where the code
  calls it, in the \<open>catch\<close> of the \<open>try\<close> that read the body as JSON. Both are the
  platform's to decide (a browser refuses a second read of a body), so every theorem quantifies
  over them. \<open>res.ok\<close> is the status being in the range 200 to 299.
\<close>

record response =
  status :: nat
  json_result :: "exn + json"
  text_result :: "exn + jstring"

definition ok :: "response \<Rightarrow> bool" where
  "ok res = (200 \<le> status res \<and> status res \<le> 299)"

text \<open>
  The backend as the code sees it: \<open>fetch(endpoint, {method: "POST", body})\<close> either rejects
  (the network failed) or resolves to a response.
\<close>

type_synonym backend = "jstring \<Rightarrow> jstring \<Rightarrow> exn + response"

record credentials =
  username :: jstring
  password :: jstring

definition creds_json :: "credentials \<Rightarrow> json" where
  "creds_json creds = JObj [(js ''username'', JStr (username creds)), (js ''password'', JStr (password creds))]"

subsection \<open>The state of the provider\<close>

text \<open>
  The two state cells of \<open>AuthProvider\<close>. \<open>requests\<close> is a ghost field: the endpoints that
  \<open>fetch\<close> has been called with, in order.
\<close>

record auth_state =
  token :: json
  user :: json
  requests :: "jstring list"

definition setToken :: "json \<Rightarrow> auth_state \<Rightarrow> auth_state" where
  "setToken t s = s\<lparr>token := t\<rparr>"

definition setUser :: "json \<Rightarrow> auth_state \<Rightarrow> auth_state" where
  "setUser u s = s\<lparr>user := u\<rparr>"

definition fetch_call ::
  "backend \<Rightarrow> jstring \<Rightarrow> jstring \<Rightarrow> auth_state \<Rightarrow> (exn + response) \<times> auth_state" where
  "fetch_call fetch endpoint body s = (fetch endpoint body, s\<lparr>requests := requests s @ [endpoint]\<rparr>)"

subsection \<open>\<open>login\<close> and \<open>signup\<close>\<close>

text \<open>How one iteration of the loop over the endpoints ends: \<open>continue\<close> (or falling out of
  the \<open>catch\<close>) with the new \<open>lastError\<close>, or \<open>return\<close>.\<close>

datatype step = Continue "jstring option" | Return

text \<open>\<open>data.access ?? data.token ?? data.auth_token ?? null\<close>\<close>

definition extract_token :: "json \<Rightarrow> exn + json" where
  "extract_token data =
     or_else
       (coalesce (coalesce (get_property data (js ''access'')) (get_property data (js ''token'')))
          (get_property data (js ''auth_token'')))
       JNull"

text \<open>\<open>data.user ?? (data.username ? { username: data.username } : null)\<close>\<close>

definition extract_user :: "json \<Rightarrow> exn + json option" where
  "extract_user data =
     coalesce (get_property data (js ''user''))
       (case get_property data (js ''username'') of
          Inl e \<Rightarrow> Inl e
        | Inr None \<Rightarrow> Inr (Some JNull)
        | Inr (Some n) \<Rightarrow> if truthy n then Inr (Some (JObj [(js ''username'', n)])) else Inr (Some JNull))"

text \<open>
  The success path of both operations: the lines from \<open>const data = await res.json()\<close> to
  \<open>return\<close>. Every expression that can throw is evaluated before the first state update.
\<close>

definition commit_response :: "credentials \<Rightarrow> response \<Rightarrow> auth_state \<Rightarrow> (exn + step) \<times> auth_state" where
  "commit_response creds res s =
     (case json_result res of
        Inl err \<Rightarrow> (Inl err, s)
      | Inr data \<Rightarrow>
         (case extract_token data of
            Inl err \<Rightarrow> (Inl err, s)
          | Inr t \<Rightarrow>
             (case or_else (extract_user data) (JObj [(js ''username'', JStr (username creds))]) of
                Inl err \<Rightarrow> (Inl err, s)
              | Inr u \<Rightarrow> (Inr Return, setUser u (setToken t s)))))"

text \<open>
  The error body of \<open>login\<close>: the inner \<open>try\<close> reads \<open>detail\<close>, then \<open>non_field_errors\<close>, then
  the whole body; its \<open>catch\<close> reads the text and keeps \<open>lastError\<close> when that is empty or fails.
\<close>

definition login_error_json :: "response \<Rightarrow> exn + jstring" where
  "login_error_json res =
     (case json_result res of
        Inl err \<Rightarrow> Inl err
      | Inr j \<Rightarrow>
         (case get_property j (js ''detail'') of
            Inl err \<Rightarrow> Inl err
          | Inr d \<Rightarrow>
             (case truthy_value d of
                Some v \<Rightarrow> Inr (ToString v)
              | None \<Rightarrow>
                 (case get_property j (js ''non_field_errors'') of
                    Inl err \<Rightarrow> Inl err
                  | Inr n \<Rightarrow>
                     (case truthy_value n of
                        Some v \<Rightarrow> Inr (JSON_stringify v)
                      | None \<Rightarrow> Inr (JSON_stringify j))))))"

definition login_error :: "response \<Rightarrow> jstring option \<Rightarrow> jstring option" where
  "login_error res lastError =
     (case login_error_json res of
        Inr m \<Rightarrow> Some m
      | Inl err \<Rightarrow>
         (case text_result res of
            Inl err2 \<Rightarrow> lastError
          | Inr t \<Rightarrow> if t \<noteq> [] then Some t else lastError))"

definition login_try ::
  "backend \<Rightarrow> credentials \<Rightarrow> jstring \<Rightarrow> jstring option \<Rightarrow> auth_state \<Rightarrow> (exn + step) \<times> auth_state" where
  "login_try fetch creds endpoint lastError s =
     (case fetch_call fetch endpoint (JSON_stringify (creds_json creds)) s of
        (Inl err, s1) \<Rightarrow> (Inl err, s1)
      | (Inr res, s1) \<Rightarrow>
         if \<not> ok res then
           (if status res = 404 then (Inr (Continue (Some (js ''Not found: '' @ endpoint))), s1)
            else (Inr (Continue (login_error res lastError)), s1))
         else commit_response creds res s1)"

text \<open>The outer \<open>catch (err)\<close>: \<open>lastError = err?.message ?? String(err)\<close>.\<close>

definition login_iteration ::
  "backend \<Rightarrow> credentials \<Rightarrow> jstring \<Rightarrow> jstring option \<Rightarrow> auth_state \<Rightarrow> step \<times> auth_state" where
  "login_iteration fetch creds endpoint lastError s =
     (case login_try fetch creds endpoint lastError s of
        (Inl err, s1) \<Rightarrow> (Continue (Some (message err)), s1)
      | (Inr st, s1) \<Rightarrow> (st, s1))"

text \<open>
  The error body of \<open>signup\<close>: \<open>detail\<close>, then the whole body; its \<open>catch\<close> reads the text
  outside any inner \<open>try\<close>, so a failing read reaches the outer \<open>catch\<close>.
\<close>

definition signup_error_json :: "response \<Rightarrow> exn + jstring" where
  "signup_error_json res =
     (case json_result res of
        Inl err \<Rightarrow> Inl err
      | Inr j \<Rightarrow>
         (case get_property j (js ''detail'') of
            Inl err \<Rightarrow> Inl err
          | Inr d \<Rightarrow>
             (case truthy_value d of
                Some v \<Rightarrow> Inr (ToString v)
              | None \<Rightarrow> Inr (JSON_stringify j))))"

definition signup_error :: "response \<Rightarrow> exn + jstring" where
  "signup_error res =
     (case signup_error_json res of
        Inr m \<Rightarrow> Inr m
      | Inl err \<Rightarrow>
         (case text_result res of
            Inl err2 \<Rightarrow> Inl err2
          | Inr t \<Rightarrow> if t \<noteq> [] then Inr t else Inr (js ''HTTP '' @ digits (status res))))"

definition signup_try ::
  "backend \<Rightarrow> credentials \<Rightarrow> jstring \<Rightarrow> jstring option \<Rightarrow> auth_state \<Rightarrow> (exn + step) \<times> auth_state" where
  "signup_try fetch creds endpoint lastError s =
     (case fetch_call fetch endpoint (JSON_stringify (creds_json creds)) s of
        (Inl err, s1) \<Rightarrow> (Inl err, s1)
      | (Inr res, s1) \<Rightarrow>
         if \<not> ok res then
           (if status res = 404 then (Inr (Continue (Some (js ''Not found: '' @ endpoint))), s1)
            else
              (case signup_error res of
                 Inl err \<Rightarrow> (Inl err, s1)
               | Inr m \<Rightarrow> (Inr (Continue (Some m)), s1)))
         else commit_response creds res s1)"

definition signup_iteration ::
  "backend \<Rightarrow> credentials \<Rightarrow> jstring \<Rightarrow> jstring option \<Rightarrow> auth_state \<Rightarrow> step \<times> auth_state" where
  "signup_iteration fetch creds endpoint lastError s =
     (case signup_try fetch creds endpoint lastError s of
        (Inl err, s1) \<Rightarrow> (Continue (Some (message err)), s1)
      | (Inr st, s1) \<Rightarrow> (st, s1))"

text \<open>
  \<open>for (const endpoint of endpoints) { ... }\<close>: the loop ends by a \<open>return\<close> in its body
  (\<open>None\<close>: the operation is over) or by running out of endpoints (\<open>Some lastError\<close>: control
  reaches the \<open>throw\<close> after the loop).
\<close>

fun for_endpoints ::
  "(jstring \<Rightarrow> jstring option \<Rightarrow> auth_state \<Rightarrow> step \<times> auth_state) \<Rightarrow> jstring list \<Rightarrow>
   jstring option \<Rightarrow> auth_state \<Rightarrow> jstring option option \<times> auth_state" where
  "for_endpoints body [] lastError s = (Some lastError, s)"
| "for_endpoints body (endpoint # endpoints) lastError s =
     (case body endpoint lastError s of
        (Return, s1) \<Rightarrow> (None, s1)
      | (Continue lastError1, s1) \<Rightarrow> for_endpoints body endpoints lastError1 s1)"

definition login_endpoints :: "jstring list" where
  "login_endpoints = [js ''/api/auth/token/'', js ''/api/auth/login/'', js ''/api/auth/token/obtain/'']"

definition signup_endpoints :: "jstring list" where
  "signup_endpoints = [js ''/api/auth/signup/'', js ''/api/auth/register/'']"

text \<open>
  The operations. \<open>Inr ()\<close> is the promise resolving, \<open>Inl (Exn m)\<close> the
  \<open>throw new Error(lastError ?? "...")\<close> after the loop.
\<close>

definition login :: "backend \<Rightarrow> credentials \<Rightarrow> auth_state \<Rightarrow> (exn + unit) \<times> auth_state" where
  "login fetch creds s =
     (case for_endpoints (login_iteration fetch creds) login_endpoints None s of
        (None, s1) \<Rightarrow> (Inr (), s1)
      | (Some lastError, s1) \<Rightarrow>
         (Inl (Exn (case lastError of None \<Rightarrow> js ''Login failed'' | Some m \<Rightarrow> m)), s1))"

definition signup :: "backend \<Rightarrow> credentials \<Rightarrow> auth_state \<Rightarrow> (exn + unit) \<times> auth_state" where
  "signup fetch creds s =
     (case for_endpoints (signup_iteration fetch creds) signup_endpoints None s of
        (None, s1) \<Rightarrow> (Inr (), s1)
      | (Some lastError, s1) \<Rightarrow>
         (Inl (Exn (case lastError of None \<Rightarrow> js ''Signup failed'' | Some m \<Rightarrow> m)), s1))"

definition logout :: "auth_state \<Rightarrow> auth_state" where
  "logout s = setUser JNull (setToken JNull s)"

subsection \<open>\<open>localStorage\<close>: initialisation and the persistence effects\<close>

text \<open>
  The storage holds strings under string keys. Its methods throw when the browser denies
  access (\<open>readable\<close>, \<open>writable\<close> say whether it does).
\<close>

record storage =
  items :: "jstring \<Rightarrow> jstring option"
  readable :: bool
  writable :: bool

definition getItem :: "storage \<Rightarrow> jstring \<Rightarrow> exn + jstring option" where
  "getItem st k = (if readable st then Inr (items st k) else Inl (Exn (js ''SecurityError'')))"

definition setItem :: "storage \<Rightarrow> jstring \<Rightarrow> jstring \<Rightarrow> exn + storage" where
  "setItem st k v =
     (if writable st then Inr (st\<lparr>items := (items st)(k \<mapsto> v)\<rparr>) else Inl (Exn (js ''QuotaExceededError'')))"

definition removeItem :: "storage \<Rightarrow> jstring \<Rightarrow> exn + storage" where
  "removeItem st k =
     (if writable st then Inr (st\<lparr>items := (items st)(k := None)\<rparr>) else Inl (Exn (js ''SecurityError'')))"

definition TOKEN_KEY :: jstring where
  "TOKEN_KEY = js ''auth_token''"

definition USER_KEY :: jstring where
  "USER_KEY = js ''auth_user''"

definition try_catch :: "exn + 'a \<Rightarrow> (exn \<Rightarrow> exn + 'a) \<Rightarrow> exn + 'a" where
  "try_catch body handler = (case body of Inl e \<Rightarrow> handler e | Inr v \<Rightarrow> Inr v)"

text \<open>The initialiser of \<open>token\<close>: \<open>localStorage.getItem(TOKEN_KEY)\<close>, \<open>null\<close> when it throws.\<close>

definition init_token :: "storage \<Rightarrow> exn + json" where
  "init_token st =
     try_catch
       (case getItem st TOKEN_KEY of
          Inl e \<Rightarrow> Inl e
        | Inr None \<Rightarrow> Inr JNull
        | Inr (Some v) \<Rightarrow> Inr (JStr v))
       (\<lambda>e. Inr JNull)"

text \<open>
  The initialiser of \<open>user\<close>: \<open>raw ? JSON.parse(raw) : null\<close>, \<open>null\<close> when anything
  throws. \<open>rd\<close> is the platform's reading of number literals.
\<close>

definition init_user :: "(jstring \<Rightarrow> number) \<Rightarrow> storage \<Rightarrow> exn + json" where
  "init_user rd st =
     try_catch
       (case getItem st USER_KEY of
          Inl e \<Rightarrow> Inl e
        | Inr None \<Rightarrow> Inr JNull
        | Inr (Some raw) \<Rightarrow> if raw \<noteq> [] then JSON_parse rd raw else Inr JNull)
       (\<lambda>e. Inr JNull)"

definition AuthProvider_init :: "(jstring \<Rightarrow> number) \<Rightarrow> storage \<Rightarrow> exn + auth_state" where
  "AuthProvider_init rd st =
     (case init_token st of
        Inl e \<Rightarrow> Inl e
      | Inr t \<Rightarrow>
         (case init_user rd st of
            Inl e \<Rightarrow> Inl e
          | Inr u \<Rightarrow> Inr \<lparr>token = t, user = u, requests = []\<rparr>))"

text \<open>
  The two effects. \<open>setItem\<close> stores the string of its argument, so a token that is not a
  string is stored as \<open>String(token)\<close>. A throwing storage leaves the storage as it is.
\<close>

definition persist_token :: "json \<Rightarrow> storage \<Rightarrow> storage" where
  "persist_token t st =
     (case (if truthy t then setItem st TOKEN_KEY (ToString t) else removeItem st TOKEN_KEY) of
        Inl e \<Rightarrow> st
      | Inr st1 \<Rightarrow> st1)"

definition persist_user :: "json \<Rightarrow> storage \<Rightarrow> storage" where
  "persist_user u st =
     (case (if truthy u then setItem st USER_KEY (JSON_stringify u) else removeItem st USER_KEY) of
        Inl e \<Rightarrow> st
      | Inr st1 \<Rightarrow> st1)"

definition persist :: "auth_state \<Rightarrow> storage \<Rightarrow> storage" where
  "persist s st = persist_user (user s) (persist_token (token s) st)"

text \<open>The two sessions the specification tells apart.\<close>

definition authenticated :: "auth_state \<Rightarrow> bool" where
  "authenticated s = (token s \<noteq> JNull \<and> user s \<noteq> JNull)"

definition anonymous :: "auth_state \<Rightarrow> bool" where
  "anonymous s = (token s = JNull \<and> user s = JNull)"

text \<open>
  A JSON value as the platform builds it: no object has a key twice, and the keys of every
  object are in enumeration order.
\<close>

fun wf_json :: "json \<Rightarrow> bool" where
  "wf_json (JArr xs) = (\<forall>x \<in> set xs. wf_json x)"
| "wf_json (JObj kvs) =
     (distinct (map fst kvs) \<and> ordered_keys (map fst kvs) \<and> (\<forall>kv \<in> set kvs. wf_json (snd kv)))"
| "wf_json v = True"

text \<open>
  A number is read back when \<open>JSON.stringify\<close> writes a literal for it that the platform
  reads as that number. ECMAScript has it so for every finite number but negative zero,
  which is written \<open>0\<close>; a number that is not finite is written \<open>null\<close>.
\<close>

definition read_back :: "(jstring \<Rightarrow> number) \<Rightarrow> number \<Rightarrow> bool" where
  "read_back rd n = (case number_json n of None \<Rightarrow> False | Some t \<Rightarrow> number_literal t \<and> rd t = n)"

fun numbers_read_back :: "(jstring \<Rightarrow> number) \<Rightarrow> json \<Rightarrow> bool" where
  "numbers_read_back rd (JNum n) = read_back rd n"
| "numbers_read_back rd (JArr xs) = (\<forall>x \<in> set xs. numbers_read_back rd x)"
| "numbers_read_back rd (JObj kvs) = (\<forall>kv \<in> set kvs. numbers_read_back rd (snd kv))"
| "numbers_read_back rd v = True"

subsection \<open>Notions the statements use\<close>

text \<open>
  A candidate is usable when \<open>fetch\<close> resolves to a response with a success status whose body
  parses as JSON to a value other than \<open>null\<close>.
\<close>

definition usable :: "backend \<Rightarrow> credentials \<Rightarrow> jstring \<Rightarrow> bool" where
  "usable fetch creds endpoint =
     (case fetch endpoint (JSON_stringify (creds_json creds)) of
        Inl err \<Rightarrow> False
      | Inr res \<Rightarrow> ok res \<and> (case json_result res of Inl err \<Rightarrow> False | Inr data \<Rightarrow> data \<noteq> JNull))"

text \<open>
  The message an iteration assigns to \<open>lastError\<close> on an endpoint (\<open>None\<close> when it leaves
  \<open>lastError\<close> as it was), read off a run of the loop body that starts with \<open>lastError = null\<close>;
  and the last message so assigned along a list of endpoints.
\<close>

definition recorded ::
  "(jstring \<Rightarrow> jstring option \<Rightarrow> auth_state \<Rightarrow> step \<times> auth_state) \<Rightarrow> jstring \<Rightarrow> jstring option" where
  "recorded body endpoint =
     (case fst (body endpoint None \<lparr>token = JNull, user = JNull, requests = []\<rparr>) of
        Continue m \<Rightarrow> m
      | Return \<Rightarrow> None)"

definition last_recorded ::
  "(jstring \<Rightarrow> jstring option \<Rightarrow> auth_state \<Rightarrow> step \<times> auth_state) \<Rightarrow> jstring list \<Rightarrow> jstring option" where
  "last_recorded body endpoints =
     (case List.map_filter (recorded body) endpoints of [] \<Rightarrow> None | m # ms \<Rightarrow> Some (last (m # ms)))"

text \<open>A body has a field when it is an object with that key.\<close>

definition has_field :: "json \<Rightarrow> jstring \<Rightarrow> bool" where
  "has_field data k = (case data of JObj kvs \<Rightarrow> map_of kvs k \<noteq> None | _ \<Rightarrow> False)"

text \<open>
  The token as the description of \<open>login\<close> words it: of \<open>access\<close>, \<open>token\<close> and
  \<open>auth_token\<close>, in that order, the first that is present, and \<open>null\<close> when none is. A
  field is present when the body is an object that has it with a value other than \<open>null\<close>.
\<close>

definition present :: "json \<Rightarrow> jstring \<Rightarrow> json option" where
  "present data k =
     (case data of
        JObj kvs \<Rightarrow> (case map_of kvs k of None \<Rightarrow> None | Some v \<Rightarrow> if v = JNull then None else Some v)
      | _ \<Rightarrow> None)"

definition token_by_precedence :: "json \<Rightarrow> json" where
  "token_by_precedence data =
     (case present data (js ''access'') of
        Some v \<Rightarrow> v
      | None \<Rightarrow>
         (case present data (js ''token'') of
            Some v \<Rightarrow> v
          | None \<Rightarrow> (case present data (js ''auth_token'') of Some v \<Rightarrow> v | None \<Rightarrow> JNull)))"

text \<open>
  Two conditions on what follows a token: no character of a number comes next (so that a
  number ends where it was written), and a value starts at once (no white space, no closing
  bracket).
\<close>

definition no_number_ahead :: "jstring \<Rightarrow> bool" where
  "no_number_ahead rest = (case rest of [] \<Rightarrow> True | c # cs \<Rightarrow> \<not> is_number_unit c)"

definition starts_value :: "jstring \<Rightarrow> bool" where
  "starts_value cs =
     (case cs of [] \<Rightarrow> False | c # r \<Rightarrow> \<not> is_ws c \<and> c \<noteq> cu (CHR '']'') \<and> c \<noteq> cu (CHR ''}''))"

subsection \<open>Concrete inputs\<close>

definition alice :: credentials where
  "alice = \<lparr>username = js ''alice'', password = js ''secret''\<rparr>"

definition signed_out :: auth_state where
  "signed_out = \<lparr>token = JNull, user = JNull, requests = []\<rparr>"

text \<open>A response with the given status and parsed body, whose text cannot be read again.\<close>

definition json_response :: "nat \<Rightarrow> json \<Rightarrow> response" where
  "json_response st j = \<lparr>status = st, json_result = Inr j, text_result = Inl (Exn (js ''Body is unusable''))\<rparr>"

text \<open>A response with the given status whose body is not JSON (an HTML page, say).\<close>

definition html_response :: "nat \<Rightarrow> response" where
  "html_response st =
     \<lparr>status = st, json_result = Inl (Exn (js ''Unexpected token < in JSON'')),
      text_result = Inl (Exn (js ''Body is unusable''))\<rparr>"

text \<open>
  A response with the given status and an empty body: reading it as JSON fails, and reading
  it as text afterwards is refused.
\<close>

definition empty_response :: "nat \<Rightarrow> response" where
  "empty_response st =
     \<lparr>status = st, json_result = Inl (Exn (js ''Unexpected end of JSON input'')),
      text_result = Inl (Exn (js ''Body is unusable''))\<rparr>"

definition always :: "response \<Rightarrow> backend" where
  "always res = (\<lambda>endpoint body. Inr res)"

text \<open>
  The first login endpoint answers 200 with an HTML page, the others with a token and a user.
\<close>

definition html_first :: backend where
  "html_first =
     (\<lambda>endpoint body.
        if endpoint = js ''/api/auth/token/'' then Inr (html_response 200)
        else Inr (json_response 200
               (JObj [(js ''access'', JStr (js ''abc123'')), (js ''user'', JObj [(js ''username'', JStr (js ''bob''))])])))"

text \<open>
  The first endpoint of either operation answers 404, every other endpoint the given response.
\<close>

definition not_found_first :: "response \<Rightarrow> backend" where
  "not_found_first res =
     (\<lambda>endpoint body.
        if endpoint = js ''/api/auth/token/'' \<or> endpoint = js ''/api/auth/signup/'' then Inr (json_response 404 JNull)
        else Inr res)"

text \<open>
  A platform that reads every number literal as the number of that text; it is exact on the
  literals that are the text of a number.
\<close>

definition reads_as_written :: "jstring \<Rightarrow> number" where
  "reads_as_written t = Finite t"

text \<open>
  A storage with no entries, and one whose user entry is not JSON.
\<close>

definition empty_storage :: storage where
  "empty_storage = \<lparr>items = (\<lambda>k. None), readable = True, writable = True\<rparr>"

definition corrupt_storage :: storage where
  "corrupt_storage =
     \<lparr>items = (\<lambda>k. if k = js ''auth_token'' then Some (js ''abc123'') else if k = js ''auth_user'' then Some (js ''{bad'') else None),
      readable = True, writable = True\<rparr>"

section \<open>Properties\<close>

text \<open>
  The equation of \<open>digits\<close> rewrites \<open>digits n\<close> to a term that holds \<open>digits (n div 10)\<close>;
  it is applied by hand.
\<close>

declare digits.simps [simp del]

subsection \<open>The success path and one iteration\<close>

lemma extract_token_total: "data \<noteq> JNull \<Longrightarrow> \<exists>t. extract_token data = Inr t"
  by (cases data) (auto simp: extract_token_def coalesce_def or_else_def split: option.splits)

lemma extract_token_null: "extract_token JNull = Inl (Exn (null_property_message (js ''access'')))"
  by (simp add: extract_token_def coalesce_def or_else_def)

lemma or_else_not_null: "or_else a d = Inr u \<Longrightarrow> d \<noteq> JNull \<Longrightarrow> u \<noteq> JNull"
  by (auto simp: or_else_def split: sum.splits option.splits if_splits)

lemma extract_user_total: "data \<noteq> JNull \<Longrightarrow> \<exists>u. extract_user data = Inr u"
  by (cases data) (auto simp: extract_user_def coalesce_def split: option.splits)

lemma or_else_total: "a = Inr v \<Longrightarrow> \<exists>u. or_else a d = Inr u"
  by (auto simp: or_else_def split: option.splits)

lemma commit_response_cases:
  "commit_response creds res s = (r, s1) \<Longrightarrow>
     (\<exists>err. r = Inl err \<and> s1 = s \<and> (\<forall>data. json_result res = Inr data \<longrightarrow> data = JNull)) \<or>
     (\<exists>data. r = Inr Return \<and> json_result res = Inr data \<and> data \<noteq> JNull \<and>
        extract_token data = Inr (token s1) \<and>
        or_else (extract_user data) (JObj [(js ''username'', JStr (username creds))]) = Inr (user s1) \<and>
        requests s1 = requests s)"
  apply (cases "json_result res")
   apply (auto simp: commit_response_def setToken_def setUser_def extract_token_null split: sum.splits)
  subgoal for data using extract_token_total[of data] by auto
  subgoal for data using extract_user_total[of data] or_else_total by (metis sum.distinct(1))
  done

lemma login_iteration_cases:
  "login_iteration fetch creds endpoint lastError s = (st, s1) \<Longrightarrow>
     (\<not> usable fetch creds endpoint \<and> (\<exists>m. st = Continue m) \<and> s1 = s\<lparr>requests := requests s @ [endpoint]\<rparr>) \<or>
     (usable fetch creds endpoint \<and> st = Return \<and>
      (\<exists>res data. fetch endpoint (JSON_stringify (creds_json creds)) = Inr res \<and> ok res \<and>
         json_result res = Inr data \<and> data \<noteq> JNull \<and>
         extract_token data = Inr (token s1) \<and>
         or_else (extract_user data) (JObj [(js ''username'', JStr (username creds))]) = Inr (user s1) \<and>
         requests s1 = requests s @ [endpoint]))"
  unfolding login_iteration_def login_try_def fetch_call_def usable_def
  by (auto split: sum.splits prod.splits if_splits dest!: commit_response_cases)

lemma signup_iteration_cases:
  "signup_iteration fetch creds endpoint lastError s = (st, s1) \<Longrightarrow>
     (\<not> usable fetch creds endpoint \<and> (\<exists>m. st = Continue m) \<and> s1 = s\<lparr>requests := requests s @ [endpoint]\<rparr>) \<or>
     (usable fetch creds endpoint \<and> st = Return \<and>
      (\<exists>res data. fetch endpoint (JSON_stringify (creds_json creds)) = Inr res \<and> ok res \<and>
         json_result res = Inr data \<and> data \<noteq> JNull \<and>
         extract_token data = Inr (token s1) \<and>
         or_else (extract_user data) (JObj [(js ''username'', JStr (username creds))]) = Inr (user s1) \<and>
         requests s1 = requests s @ [endpoint]))"
  unfolding signup_iteration_def signup_try_def fetch_call_def usable_def
  by (auto split: sum.splits prod.splits if_splits dest!: commit_response_cases)


subsection \<open>The loop over the candidates\<close>

lemma for_endpoints_exhausted:
  assumes step: "\<forall>e le s m s1. body e le s = (Continue m, s1) \<longrightarrow> s1 = s\<lparr>requests := requests s @ [e]\<rparr>"
  shows "for_endpoints body es le s = (Some le1, s1) \<Longrightarrow> s1 = s\<lparr>requests := requests s @ es\<rparr>"
proof (induction es arbitrary: le s)
  case Nil
  then show ?case by simp
next
  case (Cons e es)
  obtain st s2 where b: "body e le s = (st, s2)" by (cases "body e le s")
  show ?case
  proof (cases st)
    case (Continue m)
    with b Cons.prems have "for_endpoints body es m s2 = (Some le1, s1)" by simp
    from Cons.IH[OF this] step[rule_format, OF b[unfolded Continue]] show ?thesis by simp
  next
    case Return
    with b Cons.prems show ?thesis by simp
  qed
qed

lemma for_endpoints_returned:
  assumes step: "\<forall>e le s m s1. body e le s = (Continue m, s1) \<longrightarrow> s1 = s\<lparr>requests := requests s @ [e]\<rparr>"
  shows "for_endpoints body es le s = (None, s1) \<Longrightarrow>
     \<exists>pre e post le0. es = pre @ e # post \<and> body e le0 (s\<lparr>requests := requests s @ pre\<rparr>) = (Return, s1)"
proof (induction es arbitrary: le s)
  case Nil
  then show ?case by simp
next
  case (Cons e es)
  obtain st s2 where b: "body e le s = (st, s2)" by (cases "body e le s")
  show ?case
  proof (cases st)
    case (Continue m)
    with b Cons.prems have "for_endpoints body es m s2 = (None, s1)" by simp
    from Cons.IH[OF this] obtain pre e1 post le0 where
      es: "es = pre @ e1 # post" and r: "body e1 le0 (s2\<lparr>requests := requests s2 @ pre\<rparr>) = (Return, s1)"
      by blast
    have "s2\<lparr>requests := requests s2 @ pre\<rparr> = s\<lparr>requests := requests s @ (e # pre)\<rparr>"
      using step[rule_format, OF b[unfolded Continue]] by simp
    with es r have "e # es = (e # pre) @ e1 # post \<and> body e1 le0 (s\<lparr>requests := requests s @ (e # pre)\<rparr>) = (Return, s1)"
      by simp
    then show ?thesis by blast
  next
    case Return
    with b Cons.prems have "e # es = [] @ e # es \<and> body e le (s\<lparr>requests := requests s @ []\<rparr>) = (Return, s1)"
      by simp
    then show ?thesis by blast
  qed
qed

lemma map_filter_Cons:
  "List.map_filter f (x # xs) = (case f x of None \<Rightarrow> List.map_filter f xs | Some y \<Rightarrow> y # List.map_filter f xs)"
  by (simp add: List.map_filter_def split: option.splits)

lemma for_endpoints_last_error:
  assumes upd: "\<forall>e le s m s1. body e le s = (Continue m, s1) \<longrightarrow>
       m = (case recorded body e of None \<Rightarrow> le | Some x \<Rightarrow> Some x)"
  shows "for_endpoints body es le s = (Some le1, s1) \<Longrightarrow>
     le1 = (case last_recorded body es of None \<Rightarrow> le | Some x \<Rightarrow> Some x)"
proof (induction es arbitrary: le s)
  case Nil
  then show ?case by (simp add: last_recorded_def List.map_filter_def)
next
  case (Cons e es)
  obtain st s2 where b: "body e le s = (st, s2)" by (cases "body e le s")
  show ?case
  proof (cases st)
    case (Continue m)
    with b Cons.prems have "for_endpoints body es m s2 = (Some le1, s1)" by simp
    from Cons.IH[OF this] upd[rule_format, OF b[unfolded Continue]] show ?thesis
      by (auto simp: last_recorded_def map_filter_Cons split: option.splits list.splits)
  next
    case Return
    with b Cons.prems show ?thesis by simp
  qed
qed

lemma login_iteration_continue:
  "\<forall>e le s m s1. login_iteration fetch creds e le s = (Continue m, s1) \<longrightarrow>
     s1 = s\<lparr>requests := requests s @ [e]\<rparr>"
  by (auto dest: login_iteration_cases)

lemma signup_iteration_continue:
  "\<forall>e le s m s1. signup_iteration fetch creds e le s = (Continue m, s1) \<longrightarrow>
     s1 = s\<lparr>requests := requests s @ [e]\<rparr>"
  by (auto dest: signup_iteration_cases)

lemma commit_response_fst: "fst (commit_response creds res s) = fst (commit_response creds res s')"
  by (simp add: commit_response_def split: sum.splits)

lemma commit_response_not_continue: "fst (commit_response creds res s) \<noteq> Inr (Continue m)"
  by (simp add: commit_response_def split: sum.splits)

lemma login_error_None:
  "login_error res le = (case login_error res None of None \<Rightarrow> le | Some x \<Rightarrow> Some x)"
  by (simp add: login_error_def split: sum.splits)

lemma login_iteration_fst:
  "fst (login_iteration fetch creds e le s) =
     (case fetch e (JSON_stringify (creds_json creds)) of
        Inl err \<Rightarrow> Continue (Some (message err))
      | Inr res \<Rightarrow>
         if \<not> ok res then
           (if status res = 404 then Continue (Some (js ''Not found: '' @ e))
            else Continue (login_error res le))
         else
           (case fst (commit_response creds res s0) of
              Inl err \<Rightarrow> Continue (Some (message err))
            | Inr st \<Rightarrow> st))"
proof (cases "fetch e (JSON_stringify (creds_json creds))")
  case (Inl err)
  then show ?thesis by (simp add: login_iteration_def login_try_def fetch_call_def)
next
  case (Inr res)
  show ?thesis
  proof (cases "ok res")
    case False
    with Inr show ?thesis by (simp add: login_iteration_def login_try_def fetch_call_def)
  next
    case True
    have "fst (commit_response creds res (s\<lparr>requests := requests s @ [e]\<rparr>)) = fst (commit_response creds res s0)"
      by (rule commit_response_fst)
    with Inr True show ?thesis
      by (cases "commit_response creds res (s\<lparr>requests := requests s @ [e]\<rparr>)")
         (auto simp: login_iteration_def login_try_def fetch_call_def split: sum.splits)
  qed
qed

lemma login_iteration_recorded:
  "\<forall>e le s m s1. login_iteration fetch creds e le s = (Continue m, s1) \<longrightarrow>
     m = (case recorded (login_iteration fetch creds) e of None \<Rightarrow> le | Some x \<Rightarrow> Some x)"
proof (intro allI impI)
  fix e le s m s1
  assume a: "login_iteration fetch creds e le s = (Continue m, s1)"
  let ?s0 = "\<lparr>token = JNull, user = JNull, requests = []\<rparr>"
  have 1: "fst (login_iteration fetch creds e le s) = Continue m" using a by simp
  show "m = (case recorded (login_iteration fetch creds) e of None \<Rightarrow> le | Some x \<Rightarrow> Some x)"
    using 1 login_error_None[of _ le] commit_response_not_continue[of creds _ ?s0]
    unfolding recorded_def login_iteration_fst[of fetch creds e le s ?s0]
      login_iteration_fst[of fetch creds e None ?s0 ?s0]
    by (auto split: sum.splits if_splits step.splits option.splits)
qed


lemma signup_iteration_fst:
  "fst (signup_iteration fetch creds e le s) =
     (case fetch e (JSON_stringify (creds_json creds)) of
        Inl err \<Rightarrow> Continue (Some (message err))
      | Inr res \<Rightarrow>
         if \<not> ok res then
           (if status res = 404 then Continue (Some (js ''Not found: '' @ e))
            else (case signup_error res of Inl err \<Rightarrow> Continue (Some (message err)) | Inr m \<Rightarrow> Continue (Some m)))
         else
           (case fst (commit_response creds res s0) of
              Inl err \<Rightarrow> Continue (Some (message err))
            | Inr st \<Rightarrow> st))"
proof (cases "fetch e (JSON_stringify (creds_json creds))")
  case (Inl err)
  then show ?thesis by (simp add: signup_iteration_def signup_try_def fetch_call_def)
next
  case (Inr res)
  show ?thesis
  proof (cases "ok res")
    case False
    with Inr show ?thesis
      by (simp add: signup_iteration_def signup_try_def fetch_call_def split: sum.splits)
  next
    case True
    have "fst (commit_response creds res (s\<lparr>requests := requests s @ [e]\<rparr>)) = fst (commit_response creds res s0)"
      by (rule commit_response_fst)
    with Inr True show ?thesis
      by (cases "commit_response creds res (s\<lparr>requests := requests s @ [e]\<rparr>)")
         (auto simp: signup_iteration_def signup_try_def fetch_call_def split: sum.splits)
  qed
qed

lemma signup_iteration_recorded:
  "\<forall>e le s m s1. signup_iteration fetch creds e le s = (Continue m, s1) \<longrightarrow>
     m = recorded (signup_iteration fetch creds) e"
proof (intro allI impI)
  fix e le s m s1
  assume a: "signup_iteration fetch creds e le s = (Continue m, s1)"
  let ?s0 = "\<lparr>token = JNull, user = JNull, requests = []\<rparr>"
  have 1: "fst (signup_iteration fetch creds e le s) = Continue m" using a by simp
  show "m = recorded (signup_iteration fetch creds) e"
    using 1 commit_response_not_continue[of creds _ ?s0]
    unfolding recorded_def signup_iteration_fst[of fetch creds e le s ?s0]
      signup_iteration_fst[of fetch creds e None ?s0 ?s0]
    by (auto split: sum.splits if_splits step.splits option.splits)
qed

lemma for_endpoints_overwritten:
  assumes upd: "\<forall>e le s m s1. body e le s = (Continue m, s1) \<longrightarrow> m = recorded body e"
  shows "for_endpoints body es le s = (Some le1, s1) \<Longrightarrow> es \<noteq> [] \<Longrightarrow> le1 = recorded body (last es)"
proof (induction es arbitrary: le s)
  case Nil
  then show ?case by simp
next
  case (Cons e es)
  obtain st s2 where b: "body e le s = (st, s2)" by (cases "body e le s")
  show ?case
  proof (cases st)
    case (Continue m)
    with b Cons.prems have f: "for_endpoints body es m s2 = (Some le1, s1)" by simp
    show ?thesis
    proof (cases "es = []")
      case True
      with f upd[rule_format, OF b[unfolded Continue]] show ?thesis by simp
    next
      case False
      with Cons.IH[OF f] show ?thesis by simp
    qed
  next
    case Return
    with b Cons.prems show ?thesis by simp
  qed
qed

subsection \<open>Running the operations on concrete inputs\<close>

lemmas run_defs =
  login_def signup_def login_endpoints_def signup_endpoints_def login_iteration_def
  signup_iteration_def login_try_def signup_try_def fetch_call_def ok_def commit_response_def
  login_error_def login_error_json_def signup_error_def signup_error_json_def
  extract_token_def extract_user_def coalesce_def or_else_def nullish_def truthy_value_def
  setToken_def setUser_def always_def json_response_def html_response_def alice_def signed_out_def

subsection \<open>When the loop runs out of candidates\<close>

lemma for_endpoints_exhausts_iff:
  assumes ret: "\<And>e le s. (fst (body e le s) = Return) = P e"
  shows "(\<exists>le1 s1. for_endpoints body es le s = (Some le1, s1)) = (\<forall>e \<in> set es. \<not> P e)"
proof (induction es arbitrary: le s)
  case Nil
  then show ?case by simp
next
  case (Cons e es)
  obtain st s2 where b: "body e le s = (st, s2)" by (cases "body e le s")
  show ?case
  proof (cases st)
    case (Continue m)
    with b ret[of e le s] have "\<not> P e" by simp
    with b Continue Cons.IH[of m s2] show ?thesis by simp
  next
    case Return
    with b ret[of e le s] have "P e" by simp
    with b Return show ?thesis by simp
  qed
qed

lemma login_iteration_return: "(fst (login_iteration fetch creds e le s) = Return) = usable fetch creds e"
  using login_iteration_cases[of fetch creds e le s "fst (login_iteration fetch creds e le s)"
      "snd (login_iteration fetch creds e le s)"]
  by auto

lemma login_throws_iff:
  "(\<exists>err s1. login fetch creds s = (Inl err, s1)) = (\<forall>e \<in> set login_endpoints. \<not> usable fetch creds e)"
proof -
  have "(\<exists>err s1. login fetch creds s = (Inl err, s1)) =
        (\<exists>le1 s1. for_endpoints (login_iteration fetch creds) login_endpoints None s = (Some le1, s1))"
    by (cases "for_endpoints (login_iteration fetch creds) login_endpoints None s")
       (auto simp: login_def split: option.splits)
  then show ?thesis
    using for_endpoints_exhausts_iff[of "login_iteration fetch creds" "usable fetch creds", OF login_iteration_return]
    by simp
qed

lemma login_thrown_message:
  assumes "login fetch creds s = (Inl err, s1)"
  shows "message err =
     (case last_recorded (login_iteration fetch creds) login_endpoints of
        None \<Rightarrow> js ''Login failed'' | Some m \<Rightarrow> m)"
proof -
  from assms obtain le where
    f: "for_endpoints (login_iteration fetch creds) login_endpoints None s = (Some le, s1)"
    and e: "err = Exn (case le of None \<Rightarrow> js ''Login failed'' | Some m \<Rightarrow> m)"
    by (auto simp: login_def split: prod.splits option.splits)
  from for_endpoints_last_error[of "login_iteration fetch creds", OF login_iteration_recorded f]
  have "le = last_recorded (login_iteration fetch creds) login_endpoints"
    by (simp split: option.splits)
  with e show ?thesis by simp
qed

lemma login_iteration_404:
  assumes "fetch e (JSON_stringify (creds_json creds)) = Inr res" "status res = 404"
  shows "login_iteration fetch creds e le s =
     (Continue (Some (js ''Not found: '' @ e)), s\<lparr>requests := requests s @ [e]\<rparr>)"
  using assms by (simp add: login_iteration_def login_try_def fetch_call_def ok_def)

lemma signup_iteration_404:
  assumes "fetch e (JSON_stringify (creds_json creds)) = Inr res" "status res = 404"
  shows "signup_iteration fetch creds e le s =
     (Continue (Some (js ''Not found: '' @ e)), s\<lparr>requests := requests s @ [e]\<rparr>)"
  using assms by (simp add: signup_iteration_def signup_try_def fetch_call_def ok_def)

lemma last_recorded_alt:
  "last_recorded body es =
     (if List.map_filter (recorded body) es = [] then None
      else Some (last (List.map_filter (recorded body) es)))"
  by (simp add: last_recorded_def split: list.splits)

lemma map_filter_append: "List.map_filter f (xs @ ys) = List.map_filter f xs @ List.map_filter f ys"
  by (simp add: List.map_filter_def)

lemma last_recorded_append_Cons:
  "recorded body e = Some m \<Longrightarrow>
     last_recorded body (pre @ e # post) =
       (case last_recorded body post of None \<Rightarrow> Some m | Some x \<Rightarrow> Some x)"
  by (simp add: last_recorded_alt map_filter_append map_filter_Cons)

lemma login_recorded_404:
  assumes "fetch e (JSON_stringify (creds_json creds)) = Inr res" "status res = 404"
  shows "recorded (login_iteration fetch creds) e = Some (js ''Not found: '' @ e)"
  using assms by (simp add: recorded_def login_iteration_404)

lemma signup_thrown_message:
  assumes "signup fetch creds s = (Inl err, s1)"
  shows "Some (message err) = recorded (signup_iteration fetch creds) (js ''/api/auth/register/'')"
proof -
  from assms obtain le where
    f: "for_endpoints (signup_iteration fetch creds) signup_endpoints None s = (Some le, s1)"
    and e: "err = Exn (case le of None \<Rightarrow> js ''Signup failed'' | Some m \<Rightarrow> m)"
    by (auto simp: signup_def split: prod.splits option.splits)
  have ne: "signup_endpoints \<noteq> []" by (simp add: signup_endpoints_def)
  from for_endpoints_overwritten[of "signup_iteration fetch creds", OF signup_iteration_recorded f ne]
  have le: "le = recorded (signup_iteration fetch creds) (js ''/api/auth/register/'')"
    by (simp add: signup_endpoints_def)
  have "le \<noteq> None"
  proof -
    obtain st s2 where it: "signup_iteration fetch creds (js ''/api/auth/signup/'') None s = (st, s2)"
      by (cases "signup_iteration fetch creds (js ''/api/auth/signup/'') None s")
    from f obtain m where st: "st = Continue m"
      and f2: "for_endpoints (signup_iteration fetch creds) [js ''/api/auth/register/''] m s2 = (Some le, s1)"
      using it by (cases st) (auto simp: signup_endpoints_def)
    obtain st3 s3 where it3: "signup_iteration fetch creds (js ''/api/auth/register/'') m s2 = (st3, s3)"
      by (cases "signup_iteration fetch creds (js ''/api/auth/register/'') m s2")
    from f2 it3 have st3: "st3 = Continue le" by (cases st3) auto
    have "fst (signup_iteration fetch creds (js ''/api/auth/register/'') m s2) = Continue le"
      using it3 st3 by simp
    then show ?thesis
      using commit_response_not_continue[of creds _ s2]
      unfolding signup_iteration_fst[of fetch creds "js ''/api/auth/register/''" m s2 s2]
      by (auto split: sum.splits if_splits)
  qed
  with le e show ?thesis by (cases le) auto
qed

subsection \<open>When an operation returns\<close>

lemma login_returned_winner:
  assumes "login fetch creds s = (Inr (), s1)"
  shows "\<exists>res data. fetch (last (requests s1)) (JSON_stringify (creds_json creds)) = Inr res \<and> ok res \<and>
      json_result res = Inr data \<and> data \<noteq> JNull \<and>
      extract_token data = Inr (token s1) \<and>
      or_else (extract_user data) (JObj [(js ''username'', JStr (username creds))]) = Inr (user s1)"
proof -
  from assms have "for_endpoints (login_iteration fetch creds) login_endpoints None s = (None, s1)"
    by (auto simp: login_def split: prod.splits option.splits)
  from for_endpoints_returned[of "login_iteration fetch creds", OF login_iteration_continue this] obtain pre e post le0 where
    "login_iteration fetch creds e le0 (s\<lparr>requests := requests s @ pre\<rparr>) = (Return, s1)"
    by blast
  from login_iteration_cases[OF this] show ?thesis by auto
qed

lemma signup_returned_winner:
  assumes "signup fetch creds s = (Inr (), s1)"
  shows "\<exists>res data. fetch (last (requests s1)) (JSON_stringify (creds_json creds)) = Inr res \<and> ok res \<and>
      json_result res = Inr data \<and> data \<noteq> JNull \<and>
      extract_token data = Inr (token s1) \<and>
      or_else (extract_user data) (JObj [(js ''username'', JStr (username creds))]) = Inr (user s1)"
proof -
  from assms have "for_endpoints (signup_iteration fetch creds) signup_endpoints None s = (None, s1)"
    by (auto simp: signup_def split: prod.splits option.splits)
  from for_endpoints_returned[of "signup_iteration fetch creds", OF signup_iteration_continue this] obtain pre e post le0 where
    "signup_iteration fetch creds e le0 (s\<lparr>requests := requests s @ pre\<rparr>) = (Return, s1)"
    by blast
  from signup_iteration_cases[OF this] show ?thesis by auto
qed

lemma login_iteration_usable:
  assumes "fetch e (JSON_stringify (creds_json creds)) = Inr res" "ok res" "json_result res = Inr data"
    "data \<noteq> JNull"
  shows "\<exists>s1. login_iteration fetch creds e le s = (Return, s1) \<and>
      extract_token data = Inr (token s1) \<and>
      or_else (extract_user data) (JObj [(js ''username'', JStr (username creds))]) = Inr (user s1) \<and>
      requests s1 = requests s @ [e]"
proof -
  have u: "usable fetch creds e" using assms by (simp add: usable_def)
  obtain st s1 where it: "login_iteration fetch creds e le s = (st, s1)"
    by (cases "login_iteration fetch creds e le s")
  from login_iteration_cases[OF it] u assms it show ?thesis by auto
qed

lemma login_returns_if_usable:
  assumes "e \<in> set login_endpoints" "usable fetch creds e"
  shows "\<exists>s1. login fetch creds s = (Inr (), s1)"
proof -
  have "\<not> (\<exists>err s1. login fetch creds s = (Inl err, s1))"
    using assms login_throws_iff[of fetch creds s] by blast
  then show ?thesis
    by (cases "login fetch creds s"; cases "fst (login fetch creds s)") auto
qed

lemma get_property_absent: "data \<noteq> JNull \<Longrightarrow> \<not> has_field data k \<Longrightarrow> get_property data k = Inr None"
  by (cases data) (simp_all add: has_field_def)

lemma extract_user_absent:
  "data \<noteq> JNull \<Longrightarrow> \<not> has_field data (js ''user'') \<Longrightarrow> \<not> has_field data (js ''username'') \<Longrightarrow>
     or_else (extract_user data) d = Inr d"
  by (simp add: extract_user_def get_property_absent coalesce_def nullish_def or_else_def)

lemma present_get_property:
  "data \<noteq> JNull \<Longrightarrow>
     get_property data k = Inr (case present data k of None \<Rightarrow> (if has_field data k then Some JNull else None) | Some v \<Rightarrow> Some v)"
  by (cases data) (auto simp: present_def has_field_def split: option.splits)

lemma present_not_null: "present data k = Some v \<Longrightarrow> v \<noteq> JNull"
  by (auto simp: present_def split: json.splits option.splits if_splits)

lemma extract_token_precedence: "data \<noteq> JNull \<Longrightarrow> extract_token data = Inr (token_by_precedence data)"
  by (auto simp: extract_token_def token_by_precedence_def present_get_property coalesce_def or_else_def nullish_def
      split: option.splits dest: present_not_null)

subsection \<open>The error bodies\<close>

lemma stringify_bad: "JSON_stringify (JArr [JStr (js ''bad'')]) = js ''[\"bad\"]''"
  by code_simp

lemma stringify_non_field_errors:
  "JSON_stringify (JObj [(js ''non_field_errors'', JArr [JStr (js ''bad'')])]) = js ''{\"non_field_errors\":[\"bad\"]}''"
  by code_simp

subsection \<open>Initialisation\<close>

lemma init_token_total: "\<exists>t. init_token st = Inr t"
  by (simp add: init_token_def try_catch_def split: sum.splits option.splits)

lemma init_user_total: "\<exists>u. init_user rd st = Inr u"
  by (simp add: init_user_def try_catch_def split: sum.splits option.splits)

lemma parse_bad: "JSON_parse rd (js ''{bad'') = Inl (Exn (js ''Unexpected token in JSON''))"
  by code_simp

subsection \<open>\<open>JSON.parse\<close> inverts \<open>JSON.stringify\<close>\<close>

text \<open>Strings: every escape that \<open>JSON.stringify\<close> writes is read back as the code unit it stands for.\<close>

lemma hex_val_digit: "d < 16 \<Longrightarrow> hex_val (hex_digit d) = Some d"
proof -
  assume "d < 16"
  then have "d = 0 \<or> d = 1 \<or> d = 2 \<or> d = 3 \<or> d = 4 \<or> d = 5 \<or> d = 6 \<or> d = 7 \<or> d = 8 \<or> d = 9 \<or>
      d = 10 \<or> d = 11 \<or> d = 12 \<or> d = 13 \<or> d = 14 \<or> d = 15"
    by arith
  then show ?thesis by (auto simp: hex_val_def hex_digit_def js_def)
qed

lemma hex_sum:
  "((n div 4096 * 16 + n div 256 mod 16) * 16 + n div 16 mod 16) * 16 + n mod 16 = (n::nat)"
proof -
  have 1: "n div 256 = n div 16 div 16" by (simp add: div_mult2_eq)
  have 2: "n div 4096 = n div 16 div 16 div 16" by (simp add: div_mult2_eq)
  have a: "n div 16 div 16 div 16 * 16 + n div 16 div 16 mod 16 = n div 16 div 16" by simp
  have b: "n div 16 div 16 * 16 + n div 16 mod 16 = n div 16" by simp
  have c: "n div 16 * 16 + n mod 16 = n" by simp
  show ?thesis unfolding 1 2 a b c ..
qed

lemma hex4_unicode_escape:
  "hex4 (hex_digit (unat c div 4096)) (hex_digit (unat c div 256 mod 16))
        (hex_digit (unat c div 16 mod 16)) (hex_digit (unat c mod 16)) = Some (unat (c :: code_unit))"
proof -
  have "unat c < 65536" using unsigned_less[of c, where 'a=nat] by simp
  then have "unat c div 4096 < 16" by simp
  then have 1: "hex_val (hex_digit (unat c div 4096)) = Some (unat c div 4096)" by (rule hex_val_digit)
  have 2: "hex_val (hex_digit (unat c div 256 mod 16)) = Some (unat c div 256 mod 16)"
    by (rule hex_val_digit) simp
  have 3: "hex_val (hex_digit (unat c div 16 mod 16)) = Some (unat c div 16 mod 16)"
    by (rule hex_val_digit) simp
  have 4: "hex_val (hex_digit (unat c mod 16)) = Some (unat c mod 16)"
    by (rule hex_val_digit) simp
  show ?thesis unfolding hex4_def 1 2 3 4 by (simp only: prod.case option.case hex_sum)
qed

lemma parse_string_unicode_escape:
  "parse_string (unicode_escape c @ cs) =
     (case parse_string cs of None \<Rightarrow> None | Some (s, r) \<Rightarrow> Some (c # s, r))"
  by (simp add: unicode_escape_def hex4_unicode_escape split: option.splits)

lemma parse_string_escape_unit:
  "parse_string (escape_unit c @ cs) =
     (case parse_string cs of None \<Rightarrow> None | Some (s, r) \<Rightarrow> Some (c # s, r))"
proof -
  consider (named) "c \<in> {0x22, 0x5C, 0x08, 0x0C, 0x0A, 0x0D, 0x09}"
    | (escaped) "c \<notin> {0x22, 0x5C, 0x08, 0x0C, 0x0A, 0x0D, 0x09}" "c < 0x20 \<or> is_high_surrogate c \<or> is_low_surrogate c"
    | (plain) "c \<notin> {0x22, 0x5C, 0x08, 0x0C, 0x0A, 0x0D, 0x09}" "\<not> (c < 0x20 \<or> is_high_surrogate c \<or> is_low_surrogate c)"
    by blast
  then show ?thesis
  proof cases
    case named
    then show ?thesis by (auto simp: escape_unit_def unescape_def)
  next
    case escaped
    then have "escape_unit c = unicode_escape c" by (simp add: escape_unit_def)
    then show ?thesis by (simp only: parse_string_unicode_escape)
  next
    case plain
    then show ?thesis by (simp add: escape_unit_def)
  qed
qed

lemma surrogate_plain:
  assumes "is_high_surrogate c \<or> is_low_surrogate c"
  shows "c \<noteq> 0x22" "c \<noteq> 0x5C" "\<not> c < 0x20"
proof -
  from assms have b: "0xD800 \<le> c"
    by (auto simp: is_high_surrogate_def is_low_surrogate_def word_le_nat_alt)
  show "c \<noteq> 0x22" using b by (rule contrapos_pn) simp
  show "c \<noteq> 0x5C" using b by (rule contrapos_pn) simp
  show "\<not> c < 0x20" using b by (simp add: word_le_nat_alt word_less_nat_alt)
qed

lemma parse_string_pair:
  assumes "is_high_surrogate c" "is_low_surrogate d"
  shows "parse_string (c # d # cs) =
       (case parse_string cs of None \<Rightarrow> None | Some (s, r) \<Rightarrow> Some (c # d # s, r))"
  using surrogate_plain[of c] surrogate_plain[of d] assms
  by (simp split: option.splits)

lemma parse_string_close: "parse_string (cu (CHR 0x22) # rest) = Some ([], rest)"
  by simp

lemma parse_string_quote:
  "parse_string (escape_units s @ cu (CHR 0x22) # rest) = Some (s, rest)"
proof (induction s rule: escape_units.induct)
  case 1
  show ?case by simp
next
  case (2 c)
  show ?case using parse_string_escape_unit[of c "cu (CHR 0x22) # rest"] by simp
next
  case (3 c d cs)
  show ?case
  proof (cases "is_high_surrogate c \<and> is_low_surrogate d")
    case True
    then have e: "escape_units (c # d # cs) = c # d # escape_units cs" by simp
    from 3(1)[OF True] True show ?thesis
      unfolding e by (simp add: parse_string_pair del: parse_string.simps)
  next
    case False
    then have e: "escape_units (c # d # cs) = escape_unit c @ escape_units (d # cs)"
      by (subst escape_units.simps) (rule if_not_P)
    from 3(2)[OF False] show ?thesis
      unfolding e by (simp add: parse_string_escape_unit del: parse_string.simps escape_units.simps)
  qed
qed

text \<open>Numbers: a literal is read up to the first character that no number contains.\<close>

lemma number_step_unit: "number_step q c = Some q' \<Longrightarrow> is_number_unit c"
  by (cases q) (auto simp: number_step_def is_number_unit_def is_digit_def split: if_splits)

lemma number_run_units: "number_run q t = Some q' \<Longrightarrow> list_all is_number_unit t"
proof (induction t arbitrary: q)
  case Nil
  show ?case by simp
next
  case (Cons c cs)
  then obtain q1 where s: "number_step q c = Some q1" and r: "number_run q1 cs = Some q'"
    by (auto split: option.splits)
  from number_step_unit[OF s] Cons.IH[OF r] show ?case by simp
qed

lemma number_literal_units: "number_literal t \<Longrightarrow> list_all is_number_unit t"
  by (auto simp: number_literal_def split: option.splits dest: number_run_units)

lemma number_literal_hd:
  "number_literal t \<Longrightarrow> \<exists>c cs. t = c # cs \<and> (c = cu (CHR ''-'') \<or> is_digit c)"
  by (cases t) (auto simp: number_literal_def number_step_def is_digit_def split: option.splits if_splits)

lemma takeWhile_number:
  "list_all is_number_unit t \<Longrightarrow> no_number_ahead rest \<Longrightarrow> takeWhile is_number_unit (t @ rest) = t"
  by (cases rest) (simp_all add: no_number_ahead_def takeWhile_append2 list_all_iff)

lemma dropWhile_number:
  "list_all is_number_unit t \<Longrightarrow> no_number_ahead rest \<Longrightarrow> dropWhile is_number_unit (t @ rest) = rest"
  by (cases rest) (simp_all add: no_number_ahead_def dropWhile_append2 list_all_iff)

lemma parse_number_literal:
  "number_literal t \<Longrightarrow> no_number_ahead rest \<Longrightarrow> parse_number rd (t @ rest) = Some (JNum (rd t), rest)"
  by (simp add: parse_number_def takeWhile_number dropWhile_number number_literal_units)

lemma digit_bounds: "is_digit c \<Longrightarrow> 0x30 \<le> c \<and> c \<le> 0x39"
  by (simp add: is_digit_def)

lemma parse_value_numeric:
  assumes "c = cu (CHR ''-'') \<or> is_digit c"
  shows "parse_value rd (Suc n) (c # cs) = parse_number rd (c # cs)"
proof -
  have u: "unat c = 45 \<or> (48 \<le> unat c \<and> unat c \<le> 57)"
    using assms by (auto simp: is_digit_def word_le_nat_alt)
  have ne: "c \<noteq> 0x20" "c \<noteq> 0x09" "c \<noteq> 0x0A" "c \<noteq> 0x0D" "c \<noteq> 0x6E" "c \<noteq> 0x74" "c \<noteq> 0x66"
    "c \<noteq> 0x22" "c \<noteq> 0x5B" "c \<noteq> 0x7B"
    using u by auto
  show ?thesis using ne by (simp add: skip_ws_def is_ws_def)
qed

lemma parse_value_number:
  assumes "number_literal t" "no_number_ahead rest"
  shows "parse_value rd (Suc n) (t @ rest) = Some (JNum (rd t), rest)"
proof -
  obtain c cs where c: "t = c # cs" "c = cu (CHR ''-'') \<or> is_digit c"
    using number_literal_hd[OF assms(1)] by blast
  have "parse_value rd (Suc n) (c # cs @ rest) = parse_number rd (c # cs @ rest)"
    using c(2) by (rule parse_value_numeric)
  with parse_number_literal[OF assms, of rd] c(1) show ?thesis by simp
qed

text \<open>The equations of the parser, one leading character at a time.\<close>

lemma skip_ws_starts: "starts_value cs \<Longrightarrow> skip_ws cs = cs"
  by (cases cs) (simp_all add: starts_value_def skip_ws_def)

lemma parse_value_null: "parse_value rd (Suc n) (js ''null'' @ rest) = Some (JNull, rest)"
  by (simp add: skip_ws_def is_ws_def parse_literal_def js_def)

lemma parse_value_true: "parse_value rd (Suc n) (js ''true'' @ rest) = Some (JBool True, rest)"
  by (simp add: skip_ws_def is_ws_def parse_literal_def js_def)

lemma parse_value_false: "parse_value rd (Suc n) (js ''false'' @ rest) = Some (JBool False, rest)"
  by (simp add: skip_ws_def is_ws_def parse_literal_def js_def)

lemma parse_value_string: "parse_value rd (Suc n) (quote s @ rest) = Some (JStr s, rest)"
  by (simp add: skip_ws_def is_ws_def quote_def parse_string_quote[simplified] del: parse_string.simps)

lemma parse_value_empty_array: "parse_value rd (Suc n) (js ''[]'' @ rest) = Some (JArr [], rest)"
  by (simp add: skip_ws_def is_ws_def js_def)

lemma parse_value_empty_object: "parse_value rd (Suc n) (js ''{}'' @ rest) = Some (JObj [], rest)"
  by (simp add: skip_ws_def is_ws_def js_def)

lemma parse_value_array:
  "starts_value cs \<Longrightarrow>
     parse_value rd (Suc n) (cu (CHR ''['') # cs) =
       (case parse_value rd n cs of
          None \<Rightarrow> None
        | Some (v, r1) \<Rightarrow>
           (case parse_elements rd n r1 of None \<Rightarrow> None | Some (vs, r2) \<Rightarrow> Some (JArr (v # vs), r2)))"
  by (cases cs) (simp_all add: starts_value_def skip_ws_def is_ws_def)

lemma parse_value_object:
  "starts_value cs \<Longrightarrow>
     parse_value rd (Suc n) (cu (CHR ''{'') # cs) =
       (case parse_member rd n cs of
          None \<Rightarrow> None
        | Some (kv, r1) \<Rightarrow>
           (case parse_members rd n r1 of
              None \<Rightarrow> None
            | Some (kvs, r2) \<Rightarrow>
               Some (JObj (foldl (\<lambda>ps p. define_property (fst p) (snd p) ps) [] (kv # kvs)), r2)))"
  by (cases cs) (simp_all add: starts_value_def skip_ws_def is_ws_def)

lemma parse_elements_close: "parse_elements rd (Suc n) (cu (CHR '']'') # rest) = Some ([], rest)"
  by (simp add: skip_ws_def is_ws_def)

lemma parse_elements_comma:
  "parse_elements rd (Suc n) (cu (CHR '','') # cs) =
     (case parse_value rd n cs of
        None \<Rightarrow> None
      | Some (v, r1) \<Rightarrow>
         (case parse_elements rd n r1 of None \<Rightarrow> None | Some (vs, r2) \<Rightarrow> Some (v # vs, r2)))"
  by (simp add: skip_ws_def is_ws_def)

lemma parse_members_close: "parse_members rd (Suc n) (cu (CHR ''}'') # rest) = Some ([], rest)"
  by (simp add: skip_ws_def is_ws_def)

lemma parse_members_comma:
  "parse_members rd (Suc n) (cu (CHR '','') # cs) =
     (case parse_member rd n cs of
        None \<Rightarrow> None
      | Some (kv, r1) \<Rightarrow>
         (case parse_members rd n r1 of None \<Rightarrow> None | Some (kvs, r2) \<Rightarrow> Some (kv # kvs, r2)))"
  by (simp add: skip_ws_def is_ws_def)

lemma parse_member_quote:
  "parse_member rd (Suc n) (quote k @ cu (CHR '':'') # cs) =
     (case parse_value rd n cs of None \<Rightarrow> None | Some (v, r2) \<Rightarrow> Some ((k, v), r2))"
  by (simp add: skip_ws_def is_ws_def quote_def parse_string_quote[simplified] del: parse_string.simps)

text \<open>
  From here on the equations of the parser are applied through the lemmas above.
\<close>

declare parse_value.simps [simp del] parse_elements.simps [simp del]
  parse_member.simps [simp del] parse_members.simps [simp del]

lemma join_Cons: "join sep (x # xs) = x @ concat (map (\<lambda>y. sep @ y) xs)"
  by (induction xs arbitrary: x) simp_all

lemma stringify_starts: "numbers_read_back rd v \<Longrightarrow> starts_value (JSON_stringify v @ rest)"
proof (cases v)
  case (JNum x)
  assume "numbers_read_back rd v"
  with JNum obtain t where t: "number_json x = Some t" "number_literal t"
    by (auto simp: read_back_def split: option.splits)
  obtain c cs where "t = c # cs" "c = cu (CHR ''-'') \<or> is_digit c"
    using number_literal_hd[OF t(2)] by blast
  with JNum t(1) show ?thesis
    by (auto simp: starts_value_def is_ws_def is_digit_def word_le_nat_alt)
qed (simp_all add: starts_value_def is_ws_def quote_def js_def)

lemma no_number_ahead_tail:
  "no_number_ahead (concat (map (\<lambda>y. cu (CHR '','') # f y) xs) @ cu (CHR '']'') # rest)"
  "no_number_ahead (concat (map (\<lambda>y. cu (CHR '','') # f y) xs) @ cu (CHR ''}'') # rest)"
  by (cases xs; simp add: no_number_ahead_def is_number_unit_def is_digit_def)+

text \<open>Objects: properties created in enumeration order are appended one after the other.\<close>

lemma ordered_keys_smaller:
  "ordered_keys (ks @ [k]) \<Longrightarrow> array_index k = Some n \<Longrightarrow>
     \<forall>k' \<in> set ks. \<exists>m. array_index k' = Some m \<and> m < n"
proof (induction ks rule: induct_list012)
  case 1
  show ?case by simp
next
  case (2 x)
  then show ?case by (auto split: option.splits)
next
  case (3 x y zs)
  from 3(3) have o: "ordered_keys ((y # zs) @ [k])"
    and a: "case array_index y of None \<Rightarrow> True
            | Some n \<Rightarrow> (case array_index x of None \<Rightarrow> False | Some m \<Rightarrow> m < n)"
    by simp_all
  from 3(2)[OF o 3(4)] have ih: "\<forall>k' \<in> set (y # zs). \<exists>m. array_index k' = Some m \<and> m < n" .
  then obtain my where my: "array_index y = Some my" "my < n" by auto
  with a obtain mx where "array_index x = Some mx" "mx < my" by (auto split: option.splits)
  with my ih show ?case by auto
qed

lemma insert_index_last:
  "\<forall>p \<in> set ps. \<exists>m. array_index (fst p) = Some m \<and> m < n \<Longrightarrow> insert_index n k v ps = ps @ [(k, v)]"
  by (induction ps) auto

lemma update_fresh: "k \<notin> fst ` set acc \<Longrightarrow> AList.update k v acc = acc @ [(k, v)]"
  by (induction acc) auto

lemma define_property_fresh:
  assumes "k \<notin> fst ` set ps" "ordered_keys (map fst ps @ [k])"
  shows "define_property k v ps = ps @ [(k, v)]"
proof -
  have n: "map_of ps k = None" using assms(1) by (simp add: map_of_eq_None_iff)
  show ?thesis
  proof (cases "array_index k")
    case None
    with n show ?thesis by (simp add: define_property_def)
  next
    case (Some i)
    from ordered_keys_smaller[OF assms(2) Some]
    have "\<forall>p \<in> set ps. \<exists>m. array_index (fst p) = Some m \<and> m < i" by simp
    then have "insert_index i k v ps = ps @ [(k, v)]" by (rule insert_index_last)
    with n Some show ?thesis by (simp add: define_property_def)
  qed
qed

lemma ordered_keys_prefix: "ordered_keys (ks @ ks') \<Longrightarrow> ordered_keys ks"
  by (induction ks rule: induct_list012) (auto split: option.splits)

lemma foldl_define_property:
  "distinct (map fst (acc @ kvs)) \<Longrightarrow> ordered_keys (map fst (acc @ kvs)) \<Longrightarrow>
     foldl (\<lambda>ps p. define_property (fst p) (snd p) ps) acc kvs = acc @ kvs"
proof (induction kvs arbitrary: acc)
  case Nil
  then show ?case by simp
next
  case (Cons p kvs)
  from Cons.prems(1) have f: "fst p \<notin> fst ` set acc" by auto
  from Cons.prems(2) have "ordered_keys ((map fst acc @ [fst p]) @ map fst kvs)" by simp
  then have o: "ordered_keys (map fst acc @ [fst p])" by (rule ordered_keys_prefix)
  have "define_property (fst p) (snd p) acc = acc @ [p]"
    using define_property_fresh[OF f o, of "snd p"] by simp
  moreover from Cons.prems have "distinct (map fst ((acc @ [p]) @ kvs))" "ordered_keys (map fst ((acc @ [p]) @ kvs))"
    by simp_all
  ultimately show ?case using Cons.IH[of "acc @ [p]"] by simp
qed

text \<open>The round trip.\<close>

lemma parse_elements_tail:
  assumes "\<And>x n rest. x \<in> set xs \<Longrightarrow> no_number_ahead rest \<Longrightarrow> length (JSON_stringify x @ rest) < n \<Longrightarrow>
      parse_value rd n (JSON_stringify x @ rest) = Some (x, rest)"
    and "length (concat (map (\<lambda>x. cu (CHR '','') # JSON_stringify x) xs) @ cu (CHR '']'') # rest) < n"
  shows "parse_elements rd n (concat (map (\<lambda>x. cu (CHR '','') # JSON_stringify x) xs) @ cu (CHR '']'') # rest) = Some (xs, rest)"
  using assms
proof (induction xs arbitrary: n)
  case Nil
  then obtain m where "n = Suc m" by (cases n) auto
  then show ?case by (simp add: parse_elements_close[simplified])
next
  case (Cons x xs)
  let ?tail = "concat (map (\<lambda>x. cu (CHR '','') # JSON_stringify x) xs) @ cu (CHR '']'') # rest"
  from Cons.prems(2) obtain m where n: "n = Suc m" by (cases n) auto
  with Cons.prems(2) have len: "length (JSON_stringify x @ ?tail) < m" "length ?tail < m" by simp_all
  have v: "parse_value rd m (JSON_stringify x @ ?tail) = Some (x, ?tail)"
    using len by (intro Cons.prems(1)) (simp_all add: no_number_ahead_tail[simplified])
  have e: "parse_elements rd m ?tail = Some (xs, rest)"
    using len by (intro Cons.IH) (simp_all add: Cons.prems(1))
  show ?case using v e by (simp add: n parse_elements_comma[simplified])
qed

lemma parse_members_tail:
  assumes "\<And>p n rest. p \<in> set kvs \<Longrightarrow> no_number_ahead rest \<Longrightarrow> length (JSON_stringify (snd p) @ rest) < n \<Longrightarrow>
      parse_value rd n (JSON_stringify (snd p) @ rest) = Some (snd p, rest)"
    and "length (concat (map (\<lambda>kv. cu (CHR '','') # quote (fst kv) @ cu (CHR '':'') # JSON_stringify (snd kv)) kvs) @ cu (CHR ''}'') # rest) < n"
  shows "parse_members rd n (concat (map (\<lambda>kv. cu (CHR '','') # quote (fst kv) @ cu (CHR '':'') # JSON_stringify (snd kv)) kvs) @ cu (CHR ''}'') # rest) =
      Some (kvs, rest)"
  using assms
proof (induction kvs arbitrary: n)
  case Nil
  then obtain m where "n = Suc m" by (cases n) auto
  then show ?case by (simp add: parse_members_close[simplified])
next
  case (Cons p kvs)
  let ?tail = "concat (map (\<lambda>kv. cu (CHR '','') # quote (fst kv) @ cu (CHR '':'') # JSON_stringify (snd kv)) kvs) @ cu (CHR ''}'') # rest"
  from Cons.prems(2) obtain m where n: "n = Suc m" by (cases n) auto
  with Cons.prems(2) have "0 < m" by simp
  then obtain l where m: "m = Suc l" by (cases m) auto
  from Cons.prems(2) n m have len: "length (JSON_stringify (snd p) @ ?tail) < l" "length ?tail < m"
    by (simp_all add: quote_def)
  have v: "parse_value rd l (JSON_stringify (snd p) @ ?tail) = Some (snd p, ?tail)"
    using len by (intro Cons.prems(1)) (simp_all add: no_number_ahead_tail[simplified])
  have mem: "parse_member rd m (quote (fst p) @ cu (CHR '':'') # JSON_stringify (snd p) @ ?tail) = Some (p, ?tail)"
    using v by (simp add: m parse_member_quote[simplified])
  have e: "parse_members rd m ?tail = Some (kvs, rest)"
    using len by (intro Cons.IH) (simp_all add: Cons.prems(1))
  show ?case using mem e by (simp add: n parse_members_comma[simplified])
qed

lemma parse_stringify:
  "wf_json v \<Longrightarrow> numbers_read_back rd v \<Longrightarrow> no_number_ahead rest \<Longrightarrow>
   length (JSON_stringify v @ rest) < n \<Longrightarrow>
     parse_value rd n (JSON_stringify v @ rest) = Some (v, rest)"
proof (induction v arbitrary: n rest)
  case JNull
  then obtain m where "n = Suc m" by (cases n) auto
  then show ?case using parse_value_null[of rd m rest] by simp
next
  case (JBool b)
  then obtain m where "n = Suc m" by (cases n) auto
  then show ?case using parse_value_true[of rd m rest] parse_value_false[of rd m rest] by simp
next
  case (JNum x)
  then obtain m where n: "n = Suc m" by (cases n) auto
  from JNum.prems(2) obtain t where t: "number_json x = Some t" "number_literal t" "rd t = x"
    by (auto simp: read_back_def split: option.splits)
  show ?case using parse_value_number[OF t(2) JNum.prems(3), of rd m] t(1,3) n by simp
next
  case (JStr s)
  then obtain m where "n = Suc m" by (cases n) auto
  then show ?case using parse_value_string[of rd m s rest] by simp
next
  case (JArr xs)
  from JArr.prems(4) obtain m where n: "n = Suc m" by (cases n) auto
  show ?case
  proof (cases xs)
    case Nil
    then show ?thesis using parse_value_empty_array[of rd m rest] n by (simp add: js_def)
  next
    case (Cons x ys)
    let ?tail = "concat (map (\<lambda>x. cu (CHR '','') # JSON_stringify x) ys) @ cu (CHR '']'') # rest"
    have s: "JSON_stringify (JArr xs) @ rest = cu (CHR ''['') # JSON_stringify x @ ?tail"
      by (simp add: Cons join_Cons comp_def js_def)
    from JArr.prems(4)[unfolded s] n have len: "length (JSON_stringify x @ ?tail) < m" "length ?tail < m"
      by simp_all
    have wf: "\<And>y. y \<in> set xs \<Longrightarrow> wf_json y" using JArr.prems(1) by simp
    have nb: "\<And>y. y \<in> set xs \<Longrightarrow> numbers_read_back rd y" using JArr.prems(2) by simp
    have v: "parse_value rd m (JSON_stringify x @ ?tail) = Some (x, ?tail)"
      using len wf nb by (intro JArr.IH) (simp_all add: Cons no_number_ahead_tail[simplified])
    have e: "parse_elements rd m ?tail = Some (ys, rest)"
    proof (rule parse_elements_tail)
      fix y k r
      assume "y \<in> set ys" "no_number_ahead r" "length (JSON_stringify y @ r) < k"
      then show "parse_value rd k (JSON_stringify y @ r) = Some (y, r)"
        using wf nb by (intro JArr.IH) (simp_all add: Cons)
    qed (rule len(2))
    have st: "starts_value (JSON_stringify x @ ?tail)"
      using nb[of x] by (intro stringify_starts) (simp add: Cons)
    have "parse_value rd (Suc m) (cu (CHR ''['') # JSON_stringify x @ ?tail) = Some (JArr xs, rest)"
      using v e by (simp add: parse_value_array[OF st, simplified] Cons)
    then show ?thesis by (simp only: s n)
  qed
next
  case (JObj kvs)
  from JObj.prems(4) obtain m where n: "n = Suc m" by (cases n) auto
  show ?case
  proof (cases kvs)
    case Nil
    then show ?thesis using parse_value_empty_object[of rd m rest] n by (simp add: js_def)
  next
    case (Cons p qs)
    let ?tail = "concat (map (\<lambda>kv. cu (CHR '','') # quote (fst kv) @ cu (CHR '':'') # JSON_stringify (snd kv)) qs) @ cu (CHR ''}'') # rest"
    have s: "JSON_stringify (JObj kvs) @ rest = cu (CHR ''{'') # quote (fst p) @ cu (CHR '':'') # JSON_stringify (snd p) @ ?tail"
      by (simp add: Cons join_Cons comp_def js_def)
    from JObj.prems(4)[unfolded s] n have "0 < m" by simp
    then obtain l where m: "m = Suc l" by (cases m) auto
    from JObj.prems(4)[unfolded s] n m have len: "length (JSON_stringify (snd p) @ ?tail) < l" "length ?tail < m"
      by (simp_all add: quote_def)
    have wf: "\<And>q. q \<in> set kvs \<Longrightarrow> wf_json (snd q)" using JObj.prems(1) by simp
    have nb: "\<And>q. q \<in> set kvs \<Longrightarrow> numbers_read_back rd (snd q)" using JObj.prems(2) by simp
    have ih: "\<And>q k r. q \<in> set kvs \<Longrightarrow> no_number_ahead r \<Longrightarrow> length (JSON_stringify (snd q) @ r) < k \<Longrightarrow>
        parse_value rd k (JSON_stringify (snd q) @ r) = Some (snd q, r)"
    proof -
      fix q k r
      assume q: "q \<in> set kvs" and r: "no_number_ahead r" "length (JSON_stringify (snd q) @ r) < k"
      have "snd q \<in> Basic_BNFs.snds q" by (cases q) simp
      from JObj.IH[OF q this wf[OF q] nb[OF q] r] show "parse_value rd k (JSON_stringify (snd q) @ r) = Some (snd q, r)" .
    qed
    have v: "parse_value rd l (JSON_stringify (snd p) @ ?tail) = Some (snd p, ?tail)"
      using len by (intro ih) (simp_all add: Cons no_number_ahead_tail[simplified])
    have mem: "parse_member rd m (quote (fst p) @ cu (CHR '':'') # JSON_stringify (snd p) @ ?tail) = Some (p, ?tail)"
      using v by (simp add: m parse_member_quote[simplified])
    have e: "parse_members rd m ?tail = Some (qs, rest)"
    proof (rule parse_members_tail)
      fix q k r
      assume "q \<in> set qs" "no_number_ahead r" "length (JSON_stringify (snd q) @ r) < k"
      then show "parse_value rd k (JSON_stringify (snd q) @ r) = Some (snd q, r)"
        by (intro ih) (simp_all add: Cons)
    qed (rule len(2))
    have st: "starts_value (quote (fst p) @ cu (CHR '':'') # JSON_stringify (snd p) @ ?tail)"
      by (simp add: starts_value_def quote_def is_ws_def)
    have d: "foldl (\<lambda>ps p. define_property (fst p) (snd p) ps) [] (p # qs) = p # qs"
      using foldl_define_property[of "[]" kvs] JObj.prems(1) by (simp add: Cons)
    have "parse_value rd (Suc m) (cu (CHR ''{'') # quote (fst p) @ cu (CHR '':'') # JSON_stringify (snd p) @ ?tail) =
        Some (JObj kvs, rest)"
      using mem e d by (simp add: parse_value_object[OF st, simplified] Cons)
    then show ?thesis by (simp only: s n)
  qed
qed

lemma stringify_nonempty: "numbers_read_back rd v \<Longrightarrow> JSON_stringify v \<noteq> []"
  using stringify_starts[of rd v "[]"] by (auto simp: starts_value_def)

lemma JSON_parse_stringify:
  "wf_json v \<Longrightarrow> numbers_read_back rd v \<Longrightarrow> JSON_parse rd (JSON_stringify v) = Inr v"
  using parse_stringify[of v rd "[]" "Suc (length (JSON_stringify v))"]
  by (simp add: JSON_parse_def no_number_ahead_def skip_ws_def)

subsection \<open>The bound of the parser is never the reason for a rejection\<close>

text \<open>
  Every call consumes input, and two bounds above the length of the input give the same
  result: \<open>JSON_parse\<close> rejects a text only for its syntax.
\<close>

lemma skip_ws_length: "length (skip_ws cs) \<le> length cs"
  by (simp add: skip_ws_def length_dropWhile_le)

lemma skip_ws_Cons_length: "skip_ws cs = c # rest \<Longrightarrow> length rest < length cs"
  using skip_ws_length[of cs] by simp

lemma parse_literal_length: "parse_literal w v cs = Some (x, r) \<Longrightarrow> length r \<le> length cs"
  by (auto simp: parse_literal_def split: if_splits)

lemma parse_string_length: "parse_string cs = Some (s, r) \<Longrightarrow> length r < length cs"
proof (induction cs arbitrary: s r rule: length_induct)
  case (1 cs)
  have IH: "\<And>ys s r. parse_string ys = Some (s, r) \<Longrightarrow> length ys < length cs \<Longrightarrow> length r < length ys"
    using 1(1) by blast
  show ?case
  proof (cases cs)
    case Nil
    with 1(2) show ?thesis by simp
  next
    case (Cons c cs1)
    with 1(2) show ?thesis
      by (auto split: if_splits list.splits option.splits dest!: IH)
  qed
qed

lemma parse_number_length: "parse_number rd cs = Some (v, r) \<Longrightarrow> length r < length cs"
proof -
  assume a: "parse_number rd cs = Some (v, r)"
  then have l: "number_literal (takeWhile is_number_unit cs)" and r: "r = dropWhile is_number_unit cs"
    by (auto simp: parse_number_def split: if_splits)
  from number_literal_hd[OF l] have t: "takeWhile is_number_unit cs \<noteq> []" by auto
  have "length (takeWhile is_number_unit cs) + length (dropWhile is_number_unit cs) = length cs"
    by (metis length_append takeWhile_dropWhile_id)
  with t r show ?thesis by (cases "takeWhile is_number_unit cs") auto
qed

lemma parse_consumes:
  "(\<forall>cs v r. parse_value rd n cs = Some (v, r) \<longrightarrow> length r < length cs) \<and>
   (\<forall>cs vs r. parse_elements rd n cs = Some (vs, r) \<longrightarrow> length r < length cs) \<and>
   (\<forall>cs kv r. parse_member rd n cs = Some (kv, r) \<longrightarrow> length r < length cs) \<and>
   (\<forall>cs kvs r. parse_members rd n cs = Some (kvs, r) \<longrightarrow> length r < length cs)"
proof (induction n)
  case 0
  show ?case by (simp add: parse_value.simps parse_elements.simps parse_member.simps parse_members.simps)
next
  case (Suc n)
  have v: "\<And>cs v r. parse_value rd n cs = Some (v, r) \<Longrightarrow> length r < length cs"
    and e: "\<And>cs vs r. parse_elements rd n cs = Some (vs, r) \<Longrightarrow> length r < length cs"
    and m: "\<And>cs kv r. parse_member rd n cs = Some (kv, r) \<Longrightarrow> length r < length cs"
    and ms: "\<And>cs kvs r. parse_members rd n cs = Some (kvs, r) \<Longrightarrow> length r < length cs"
    using Suc by blast+
  have 1: "parse_value rd (Suc n) cs = Some (x, r) \<Longrightarrow> length r < length cs" for cs x r
    by (auto simp: parse_value.simps split: list.splits if_splits option.splits
        dest!: skip_ws_Cons_length parse_literal_length parse_string_length parse_number_length v e m ms)
  have 2: "parse_elements rd (Suc n) cs = Some (xs, r) \<Longrightarrow> length r < length cs" for cs xs r
    by (auto simp: parse_elements.simps split: list.splits if_splits option.splits
        dest!: skip_ws_Cons_length v e)
  have 3: "parse_member rd (Suc n) cs = Some (kv, r) \<Longrightarrow> length r < length cs" for cs kv r
    by (auto simp: parse_member.simps split: list.splits if_splits option.splits
        dest!: skip_ws_Cons_length parse_string_length v)
  have 4: "parse_members rd (Suc n) cs = Some (kvs, r) \<Longrightarrow> length r < length cs" for cs kvs r
    by (auto simp: parse_members.simps split: list.splits if_splits option.splits
        dest!: skip_ws_Cons_length m ms)
  show ?case using 1 2 3 4 by blast
qed

lemma parse_value_consumes: "parse_value rd n cs = Some (v, r) \<Longrightarrow> length r < length cs"
  using parse_consumes[of rd n] by blast

lemma parse_member_consumes: "parse_member rd n cs = Some (kv, r) \<Longrightarrow> length r < length cs"
  using parse_consumes[of rd n] by blast

lemma parse_bound:
  "(\<forall>cs m. length cs < n \<longrightarrow> length cs < m \<longrightarrow> parse_value rd n cs = parse_value rd m cs) \<and>
   (\<forall>cs m. length cs < n \<longrightarrow> length cs < m \<longrightarrow> parse_elements rd n cs = parse_elements rd m cs) \<and>
   (\<forall>cs m. length cs < n \<longrightarrow> length cs < m \<longrightarrow> parse_member rd n cs = parse_member rd m cs) \<and>
   (\<forall>cs m. length cs < n \<longrightarrow> length cs < m \<longrightarrow> parse_members rd n cs = parse_members rd m cs)"
proof (induction n)
  case 0
  show ?case by simp
next
  case (Suc n)
  have pv: "\<And>ys k. length ys < n \<Longrightarrow> length ys < k \<Longrightarrow> parse_value rd n ys = parse_value rd k ys"
    and pe: "\<And>ys k. length ys < n \<Longrightarrow> length ys < k \<Longrightarrow> parse_elements rd n ys = parse_elements rd k ys"
    and pm: "\<And>ys k. length ys < n \<Longrightarrow> length ys < k \<Longrightarrow> parse_member rd n ys = parse_member rd k ys"
    and pms: "\<And>ys k. length ys < n \<Longrightarrow> length ys < k \<Longrightarrow> parse_members rd n ys = parse_members rd k ys"
    using Suc by blast+
  have 1: "parse_value rd (Suc n) cs = parse_value rd (Suc k) cs" if "length cs < Suc n" "length cs < Suc k" for cs k
  proof (cases "skip_ws cs")
    case Nil
    then show ?thesis by (simp add: parse_value.simps)
  next
    case (Cons c rest)
    then have l: "length rest < n" "length rest < k"
      using skip_ws_Cons_length[OF Cons] that by simp_all
    have v: "parse_value rd n rest = parse_value rd k rest" using l by (rule pv)
    have e: "parse_elements rd n r1 = parse_elements rd k r1" if "parse_value rd k rest = Some (x, r1)" for x r1
      using parse_value_consumes[OF that] l by (intro pe) simp_all
    have m: "parse_member rd n rest = parse_member rd k rest" using l by (rule pm)
    have ms: "parse_members rd n r1 = parse_members rd k r1" if "parse_member rd k rest = Some (x, r1)" for x r1
      using parse_member_consumes[OF that] l by (intro pms) simp_all
    show ?thesis
      by (auto simp: parse_value.simps Cons v m e ms split: list.splits option.splits)
  qed
  have 2: "parse_elements rd (Suc n) cs = parse_elements rd (Suc k) cs" if "length cs < Suc n" "length cs < Suc k" for cs k
  proof (cases "skip_ws cs")
    case Nil
    then show ?thesis by (simp add: parse_elements.simps)
  next
    case (Cons c rest)
    then have l: "length rest < n" "length rest < k"
      using skip_ws_Cons_length[OF Cons] that by simp_all
    have v: "parse_value rd n rest = parse_value rd k rest" using l by (rule pv)
    have e: "parse_elements rd n r1 = parse_elements rd k r1" if "parse_value rd k rest = Some (x, r1)" for x r1
      using parse_value_consumes[OF that] l by (intro pe) simp_all
    show ?thesis
      by (auto simp: parse_elements.simps Cons v e split: option.splits)
  qed
  have 3: "parse_member rd (Suc n) cs = parse_member rd (Suc k) cs" if "length cs < Suc n" "length cs < Suc k" for cs k
  proof (cases "skip_ws cs")
    case Nil
    then show ?thesis by (simp add: parse_member.simps)
  next
    case (Cons c rest)
    then have l: "length rest < n" "length rest < k"
      using skip_ws_Cons_length[OF Cons] that by simp_all
    have v: "parse_value rd n r1 = parse_value rd k r1"
      if "parse_string rest = Some (x, r0)" "skip_ws r0 = d # r1" for x r0 d r1
      using parse_string_length[OF that(1)] skip_ws_Cons_length[OF that(2)] l by (intro pv) simp_all
    show ?thesis
      by (auto simp: parse_member.simps Cons v split: option.splits list.splits)
  qed
  have 4: "parse_members rd (Suc n) cs = parse_members rd (Suc k) cs" if "length cs < Suc n" "length cs < Suc k" for cs k
  proof (cases "skip_ws cs")
    case Nil
    then show ?thesis by (simp add: parse_members.simps)
  next
    case (Cons c rest)
    then have l: "length rest < n" "length rest < k"
      using skip_ws_Cons_length[OF Cons] that by simp_all
    have m: "parse_member rd n rest = parse_member rd k rest" using l by (rule pm)
    have ms: "parse_members rd n r1 = parse_members rd k r1" if "parse_member rd k rest = Some (x, r1)" for x r1
      using parse_member_consumes[OF that] l by (intro pms) simp_all
    show ?thesis
      by (auto simp: parse_members.simps Cons m ms split: option.splits)
  qed
  show ?case
  proof (intro conjI allI impI)
    fix cs :: jstring and m
    assume a: "length cs < Suc n" "length cs < m"
    then obtain k where k: "m = Suc k" by (cases m) auto
    show "parse_value rd (Suc n) cs = parse_value rd m cs" using 1[of cs k] a k by simp
    show "parse_elements rd (Suc n) cs = parse_elements rd m cs" using 2[of cs k] a k by simp
    show "parse_member rd (Suc n) cs = parse_member rd m cs" using 3[of cs k] a k by simp
    show "parse_members rd (Suc n) cs = parse_members rd m cs" using 4[of cs k] a k by simp
  qed
qed

lemma JSON_parse_bound:
  "length s < n \<Longrightarrow>
     JSON_parse rd s =
       (case parse_value rd n s of
          None \<Rightarrow> Inl (Exn (js ''Unexpected token in JSON''))
        | Some (v, rest) \<Rightarrow>
           if skip_ws rest = [] then Inr v else Inl (Exn (js ''Unexpected token in JSON'')))"
  using parse_bound[of "Suc (length s)" rd] by (simp add: JSON_parse_def)

subsection \<open>The strings of literals\<close>

text \<open>
  Two literals give the same string only when they are the same literal, so strings of
  literals are compared and appended as the literals are.
\<close>

lemma unat_cu: "unat (cu c) = of_char c"
proof -
  have w: "cu c = word_of_nat (of_char c)" by (simp only: of_nat_of_char)
  have "(of_char c :: nat) < 256" by (rule nat_of_char_less_256)
  also have "(256::nat) < 2 ^ 16" by simp
  finally have "(of_char c :: nat) mod 2 ^ LENGTH(16) = of_char c" by simp
  then show ?thesis unfolding w by (simp only: unat_of_nat)
qed
lemma cu_inj: "(cu c = cu d) = (c = d)"
proof
  assume "cu c = cu d"
  then have "unat (cu c) = unat (cu d)" by simp
  then have "(of_char c :: nat) = of_char d" by (simp only: unat_cu)
  then show "c = d" by simp
qed simp
lemma js_eq_iff: "(js a = js b) = (a = b)"
  unfolding js_def by (rule inj_map_eq_map) (simp add: inj_on_def cu_inj)
lemma js_append: "js a @ js b = js (a @ b)"
  by (simp add: js_def)
lemma js_append2: "js a @ js b @ c = js (a @ b) @ c"
  by (simp add: js_def)
lemma js_Nil_iff: "(js a = []) = (a = [])" "([] = js a) = (a = [])"
  by (auto simp: js_def)

declare js_eq_iff [simp] js_append [simp] js_append2 [simp] js_Nil_iff [simp]

subsection \<open>Persisting and reloading\<close>

lemma persist_token_items:
  "writable st \<Longrightarrow>
     persist_token t st =
       st\<lparr>items := (items st)(TOKEN_KEY := if truthy t then Some (ToString t) else None)\<rparr>"
  by (simp add: persist_token_def setItem_def removeItem_def)

lemma persist_user_items:
  "writable st \<Longrightarrow>
     persist_user u st =
       st\<lparr>items := (items st)(USER_KEY := if truthy u then Some (JSON_stringify u) else None)\<rparr>"
  by (simp add: persist_user_def setItem_def removeItem_def)

lemma persist_items:
  "writable st \<Longrightarrow>
     persist s st =
       st\<lparr>items := (items st)
          (TOKEN_KEY := if truthy (token s) then Some (ToString (token s)) else None,
           USER_KEY := if truthy (user s) then Some (JSON_stringify (user s)) else None)\<rparr>"
  by (simp add: persist_def persist_token_items persist_user_items)

lemma keys_differ: "TOKEN_KEY \<noteq> USER_KEY"
  by (simp add: TOKEN_KEY_def USER_KEY_def js_def)

lemma init_after_persist:
  assumes "readable st" "writable st"
    and "token s = JNull \<or> (\<exists>t. token s = JStr t \<and> t \<noteq> [])"
    and "truthy (user s)" and "wf_json (user s)" and "numbers_read_back rd (user s)"
  shows "AuthProvider_init rd (persist s st) = Inr \<lparr>token = token s, user = user s, requests = []\<rparr>"
proof -
  have t: "init_token (persist s st) = Inr (token s)"
    using assms(1-3) keys_differ
    by (auto simp: persist_items init_token_def try_catch_def getItem_def)
  have u: "init_user rd (persist s st) = Inr (user s)"
    using assms(1,2,4) JSON_parse_stringify[OF assms(5,6)] stringify_nonempty[OF assms(6)]
    by (simp add: persist_items init_user_def try_catch_def getItem_def)
  show ?thesis by (simp add: AuthProvider_init_def t u)
qed

lemma stringify_alice:
  "JSON_stringify (JObj [(js ''username'', JStr (js ''alice''))]) = js ''{\"username\":\"alice\"}''"
  by code_simp

lemma parse_alice:
  "JSON_parse rd (js ''{\"username\":\"alice\"}'') = Inr (JObj [(js ''username'', JStr (js ''alice''))])"
  by code_simp

lemma stringify_alice_visits:
  "JSON_stringify (JObj [(js ''username'', JStr (js ''alice'')), (js ''visits'', JNum (Finite (js ''42'')))]) =
     js ''{\"username\":\"alice\",\"visits\":42}''"
  by code_simp

lemma stringify_alice_score:
  "JSON_stringify (JObj [(js ''username'', JStr (js ''alice'')), (js ''score'', JNum PosInfinity)]) =
     js ''{\"username\":\"alice\",\"score\":null}''"
  by code_simp

lemma parse_alice_score:
  "JSON_parse rd (js ''{\"username\":\"alice\",\"score\":null}'') =
     Inr (JObj [(js ''username'', JStr (js ''alice'')), (js ''score'', JNull)])"
  by code_simp

lemma wf_alice_visits:
  "wf_json (JObj [(js ''username'', JStr (js ''alice'')), (js ''visits'', JNum (Finite (js ''42'')))])"
  by code_simp

lemma read_back_alice_visits:
  "numbers_read_back reads_as_written (JObj [(js ''username'', JStr (js ''alice'')), (js ''visits'', JNum (Finite (js ''42'')))])"
  by code_simp


section \<open>The claims\<close>

text \<open>
  Claim C1, as amended. After every successful \<open>login\<close> or \<open>signup\<close> the user record is
  present (not \<open>null\<close>), so a token without a user never results from them; the token may
  be absent. \<open>logout\<close> yields the anonymous session.
\<close>

theorem success_sets_user:
  "(login fetch creds s = (Inr (), s1) \<longrightarrow> user s1 \<noteq> JNull) \<and>
   (signup fetch creds s = (Inr (), s2) \<longrightarrow> user s2 \<noteq> JNull) \<and>
   anonymous (logout s)"
proof (intro conjI impI)
  assume "login fetch creds s = (Inr (), s1)"
  from login_returned_winner[OF this] show "user s1 \<noteq> JNull"
    by (auto dest: or_else_not_null)
next
  assume "signup fetch creds s = (Inr (), s2)"
  from signup_returned_winner[OF this] show "user s2 \<noteq> JNull"
    by (auto dest: or_else_not_null)
next
  show "anonymous (logout s)" by (simp add: anonymous_def logout_def setToken_def setUser_def)
qed

theorem success_sets_user_witness:
  "login (always (json_response 200 (JObj [(js ''token'', JStr (js ''t1''))]))) alice signed_out =
     (Inr (), \<lparr>token = JStr (js ''t1''), user = JObj [(js ''username'', JStr (js ''alice''))], requests = [js ''/api/auth/token/'']\<rparr>) \<and>
   user \<lparr>token = JStr (js ''t1''), user = JObj [(js ''username'', JStr (js ''alice''))], requests = [js ''/api/auth/token/'']\<rparr> \<noteq> JNull \<and>
   signup (always (json_response 200 (JObj [(js ''token'', JStr (js ''t1''))]))) alice signed_out =
     (Inr (), \<lparr>token = JStr (js ''t1''), user = JObj [(js ''username'', JStr (js ''alice''))], requests = [js ''/api/auth/signup/'']\<rparr>) \<and>
   user \<lparr>token = JStr (js ''t1''), user = JObj [(js ''username'', JStr (js ''alice''))], requests = [js ''/api/auth/signup/'']\<rparr> \<noteq> JNull \<and>
   anonymous (logout signed_out)"
  using success_sets_user[of "always (json_response 200 (JObj [(js ''token'', JStr (js ''t1''))]))" alice signed_out
    "\<lparr>token = JStr (js ''t1''), user = JObj [(js ''username'', JStr (js ''alice''))], requests = [js ''/api/auth/token/'']\<rparr>"
    "\<lparr>token = JStr (js ''t1''), user = JObj [(js ''username'', JStr (js ''alice''))], requests = [js ''/api/auth/signup/'']\<rparr>"]
  by (simp add: run_defs)

text \<open>
  Claim C1 as stated fails: a successful response with none of the token fields leaves a user
  without a token, a session that is neither fully authenticated nor anonymous.
\<close>

theorem partial_session_counterexample:
  "login (always (json_response 200 (JObj []))) alice signed_out =
     (Inr (), \<lparr>token = JNull, user = JObj [(js ''username'', JStr (js ''alice''))], requests = [js ''/api/auth/token/'']\<rparr>) \<and>
   \<not> authenticated \<lparr>token = JNull, user = JObj [(js ''username'', JStr (js ''alice''))], requests = [js ''/api/auth/token/'']\<rparr> \<and>
   \<not> anonymous \<lparr>token = JNull, user = JObj [(js ''username'', JStr (js ''alice''))], requests = [js ''/api/auth/token/'']\<rparr>"
  by (simp add: run_defs authenticated_def anonymous_def)

text \<open>
  Claim C2, as amended. If the first candidate endpoint returns a successful response whose body
  parses as JSON to a value other than \<open>null\<close>, \<open>login\<close> commits the token and user extracted
  from that response and returns having requested that endpoint only.
\<close>

theorem first_candidate_wins:
  assumes "fetch (js ''/api/auth/token/'') (JSON_stringify (creds_json creds)) = Inr res"
    and "ok res" and "json_result res = Inr data" and "data \<noteq> JNull"
  shows "\<exists>s1. login fetch creds s = (Inr (), s1) \<and>
      extract_token data = Inr (token s1) \<and>
      or_else (extract_user data) (JObj [(js ''username'', JStr (username creds))]) = Inr (user s1) \<and>
      requests s1 = requests s @ [js ''/api/auth/token/'']"
proof -
  from login_iteration_usable[of fetch "js ''/api/auth/token/''" creds res data None s, OF assms] obtain s1 where
    "login_iteration fetch creds (js ''/api/auth/token/'') None s = (Return, s1)"
    "extract_token data = Inr (token s1)"
    "or_else (extract_user data) (JObj [(js ''username'', JStr (username creds))]) = Inr (user s1)"
    "requests s1 = requests s @ [js ''/api/auth/token/'']"
    by blast
  then show ?thesis by (simp add: login_def login_endpoints_def)
qed

theorem first_candidate_wins_witness:
  "always (json_response 200 (JObj [(js ''access'', JStr (js ''abc123'')), (js ''user'', JObj [(js ''username'', JStr (js ''alice''))])]))
     (js ''/api/auth/token/'') (JSON_stringify (creds_json alice)) =
     Inr (json_response 200 (JObj [(js ''access'', JStr (js ''abc123'')), (js ''user'', JObj [(js ''username'', JStr (js ''alice''))])])) \<and>
   ok (json_response 200 (JObj [(js ''access'', JStr (js ''abc123'')), (js ''user'', JObj [(js ''username'', JStr (js ''alice''))])])) \<and>
   login (always (json_response 200 (JObj [(js ''access'', JStr (js ''abc123'')), (js ''user'', JObj [(js ''username'', JStr (js ''alice''))])])))
     alice signed_out =
     (Inr (), \<lparr>token = JStr (js ''abc123''), user = JObj [(js ''username'', JStr (js ''alice''))], requests = [js ''/api/auth/token/'']\<rparr>)"
  using first_candidate_wins[of
     "always (json_response 200 (JObj [(js ''access'', JStr (js ''abc123'')), (js ''user'', JObj [(js ''username'', JStr (js ''alice''))])]))"
     alice
     "json_response 200 (JObj [(js ''access'', JStr (js ''abc123'')), (js ''user'', JObj [(js ''username'', JStr (js ''alice''))])])"
     "JObj [(js ''access'', JStr (js ''abc123'')), (js ''user'', JObj [(js ''username'', JStr (js ''alice''))])]" signed_out]
  by (simp add: run_defs)

text \<open>
  Claim C2 as stated fails: the first candidate answers with a success status and a body that is
  not JSON; \<open>login\<close> goes on to the second candidate and commits what that one returns.
\<close>

theorem first_candidate_counterexample:
  "html_first (js ''/api/auth/token/'') (JSON_stringify (creds_json alice)) = Inr (html_response 200) \<and>
   ok (html_response 200) \<and>
   login html_first alice signed_out =
     (Inr (), \<lparr>token = JStr (js ''abc123''), user = JObj [(js ''username'', JStr (js ''bob''))],
              requests = [js ''/api/auth/token/'', js ''/api/auth/login/'']\<rparr>)"
  by (simp add: run_defs html_first_def)

text \<open>
  Claim C3. The error branch of \<open>signup\<close> does not follow the rules of \<open>login\<close>. An error
  answer whose body is plain text (the documented backend's \<open>username taken\<close>) is read as
  JSON first and as text afterwards; the second read of the body is refused, and \<open>signup\<close>
  throws the message of that refusal instead of the text. For the error body
  \<open>{"non_field_errors": ["bad"]}\<close> \<open>login\<close> throws the serialized \<open>non_field_errors\<close>,
  \<open>signup\<close> the whole body.
\<close>

theorem signup_error_divergence:
  "\<not> ok (html_response 400) \<and>
   signup (always (html_response 400)) alice signed_out =
     (Inl (Exn (js ''Body is unusable'')),
      \<lparr>token = JNull, user = JNull, requests = [js ''/api/auth/signup/'', js ''/api/auth/register/'']\<rparr>) \<and>
   \<not> ok (json_response 400 (JObj [(js ''non_field_errors'', JArr [JStr (js ''bad'')])])) \<and>
   login (always (json_response 400 (JObj [(js ''non_field_errors'', JArr [JStr (js ''bad'')])]))) alice signed_out =
     (Inl (Exn (js ''[\"bad\"]'')),
      \<lparr>token = JNull, user = JNull,
       requests = [js ''/api/auth/token/'', js ''/api/auth/login/'', js ''/api/auth/token/obtain/'']\<rparr>) \<and>
   signup (always (json_response 400 (JObj [(js ''non_field_errors'', JArr [JStr (js ''bad'')])]))) alice signed_out =
     (Inl (Exn (js ''{\"non_field_errors\":[\"bad\"]}'')),
      \<lparr>token = JNull, user = JNull, requests = [js ''/api/auth/signup/'', js ''/api/auth/register/'']\<rparr>)"
  by (simp add: run_defs stringify_bad stringify_non_field_errors del: JSON_stringify.simps)

text \<open>
  Claim C4, as amended. On HTTP 404 both operations go on with the next candidate, with the
  not-found message as \<open>lastError\<close>. The error \<open>signup\<close> throws is the one its last
  candidate recorded. The error \<open>login\<close> throws is the last one recorded by a candidate after
  the 404 when some later candidate records one, and the not-found message of the 404 when
  none does.
\<close>

theorem not_found_proceeds:
  "(fetch e (JSON_stringify (creds_json creds)) = Inr res \<longrightarrow> status res = 404 \<longrightarrow>
      for_endpoints (login_iteration fetch creds) (e # es) le s =
        for_endpoints (login_iteration fetch creds) es (Some (js ''Not found: '' @ e)) (s\<lparr>requests := requests s @ [e]\<rparr>) \<and>
      for_endpoints (signup_iteration fetch creds) (e # es) le s =
        for_endpoints (signup_iteration fetch creds) es (Some (js ''Not found: '' @ e)) (s\<lparr>requests := requests s @ [e]\<rparr>)) \<and>
   (signup fetch creds s = (Inl err, s1) \<longrightarrow>
      Some (message err) = recorded (signup_iteration fetch creds) (js ''/api/auth/register/'')) \<and>
   (login fetch creds s = (Inl err2, s2) \<longrightarrow> login_endpoints = pre @ e # post \<longrightarrow>
    fetch e (JSON_stringify (creds_json creds)) = Inr res \<longrightarrow> status res = 404 \<longrightarrow>
      message err2 =
        (case last_recorded (login_iteration fetch creds) post of
           None \<Rightarrow> js ''Not found: '' @ e
         | Some m \<Rightarrow> m))"
proof (intro conjI impI)
  assume a: "fetch e (JSON_stringify (creds_json creds)) = Inr res" "status res = 404"
  show "for_endpoints (login_iteration fetch creds) (e # es) le s =
        for_endpoints (login_iteration fetch creds) es (Some (js ''Not found: '' @ e)) (s\<lparr>requests := requests s @ [e]\<rparr>)"
    using a by (simp add: login_iteration_404)
  show "for_endpoints (signup_iteration fetch creds) (e # es) le s =
        for_endpoints (signup_iteration fetch creds) es (Some (js ''Not found: '' @ e)) (s\<lparr>requests := requests s @ [e]\<rparr>)"
    using a by (simp add: signup_iteration_404)
next
  assume "signup fetch creds s = (Inl err, s1)"
  then show "Some (message err) = recorded (signup_iteration fetch creds) (js ''/api/auth/register/'')"
    by (rule signup_thrown_message)
next
  assume a: "login fetch creds s = (Inl err2, s2)" "login_endpoints = pre @ e # post"
    "fetch e (JSON_stringify (creds_json creds)) = Inr res" "status res = 404"
  have "recorded (login_iteration fetch creds) e = Some (js ''Not found: '' @ e)"
    using a(3,4) by (rule login_recorded_404[of fetch e creds res])
  from login_thrown_message[OF a(1)] a(2) last_recorded_append_Cons[OF this, of pre post]
  show "message err2 =
        (case last_recorded (login_iteration fetch creds) post of
           None \<Rightarrow> js ''Not found: '' @ e
         | Some m \<Rightarrow> m)"
    by (simp split: option.splits)
qed

theorem not_found_proceeds_witness:
  "not_found_first (json_response 400 (JObj [(js ''detail'', JStr (js ''invalid credentials''))]))
     (js ''/api/auth/token/'') (JSON_stringify (creds_json alice)) = Inr (json_response 404 JNull) \<and>
   status (json_response 404 JNull) = 404 \<and>
   login_endpoints = [] @ js ''/api/auth/token/'' # [js ''/api/auth/login/'', js ''/api/auth/token/obtain/''] \<and>
   login (not_found_first (json_response 400 (JObj [(js ''detail'', JStr (js ''invalid credentials''))]))) alice signed_out =
     (Inl (Exn (js ''invalid credentials'')),
      \<lparr>token = JNull, user = JNull,
       requests = [js ''/api/auth/token/'', js ''/api/auth/login/'', js ''/api/auth/token/obtain/'']\<rparr>) \<and>
   last_recorded (login_iteration (not_found_first (json_response 400 (JObj [(js ''detail'', JStr (js ''invalid credentials''))]))) alice)
     [js ''/api/auth/login/'', js ''/api/auth/token/obtain/''] = Some (js ''invalid credentials'') \<and>
   signup (not_found_first (json_response 400 (JObj [(js ''detail'', JStr (js ''invalid credentials''))]))) alice signed_out =
     (Inl (Exn (js ''invalid credentials'')),
      \<lparr>token = JNull, user = JNull, requests = [js ''/api/auth/signup/'', js ''/api/auth/register/'']\<rparr>) \<and>
   recorded (signup_iteration (not_found_first (json_response 400 (JObj [(js ''detail'', JStr (js ''invalid credentials''))]))) alice)
     (js ''/api/auth/register/'') = Some (js ''invalid credentials'')"
  using not_found_proceeds[of
      "not_found_first (json_response 400 (JObj [(js ''detail'', JStr (js ''invalid credentials''))]))"
      "js ''/api/auth/token/''" alice "json_response 404 JNull"
      "[js ''/api/auth/login/'', js ''/api/auth/token/obtain/'']" None signed_out
      "Exn (js ''invalid credentials'')"
      "\<lparr>token = JNull, user = JNull, requests = [js ''/api/auth/signup/'', js ''/api/auth/register/'']\<rparr>"
      "Exn (js ''invalid credentials'')"
      "\<lparr>token = JNull, user = JNull,
       requests = [js ''/api/auth/token/'', js ''/api/auth/login/'', js ''/api/auth/token/obtain/'']\<rparr>"
      "[]"]
  by (simp add: run_defs not_found_first_def last_recorded_def recorded_def List.map_filter_def)


text \<open>
  Claim C4 as stated fails for \<open>login\<close>: the first candidate answers 404, the two others
  500 with an empty body. Nothing is recorded for them, whether the read of the body as text
  is refused (as it is after the read as JSON) or gives the empty string, and the error
  thrown is the first candidate's not-found message.
\<close>

theorem not_found_counterexample:
  "not_found_first (empty_response 500) (js ''/api/auth/token/'') (JSON_stringify (creds_json alice)) =
     Inr (json_response 404 JNull) \<and>
   status (json_response 404 JNull) = 404 \<and>
   login_endpoints = js ''/api/auth/token/'' # [js ''/api/auth/login/'', js ''/api/auth/token/obtain/''] \<and>
   login (not_found_first (empty_response 500)) alice signed_out =
     (Inl (Exn (js ''Not found: /api/auth/token/'')),
      \<lparr>token = JNull, user = JNull,
       requests = [js ''/api/auth/token/'', js ''/api/auth/login/'', js ''/api/auth/token/obtain/'']\<rparr>) \<and>
   login (not_found_first ((empty_response 500)\<lparr>text_result := Inr []\<rparr>)) alice signed_out =
     (Inl (Exn (js ''Not found: /api/auth/token/'')),
      \<lparr>token = JNull, user = JNull,
       requests = [js ''/api/auth/token/'', js ''/api/auth/login/'', js ''/api/auth/token/obtain/'']\<rparr>)"
  by (simp add: run_defs not_found_first_def empty_response_def)

text \<open>
  Claim C5. If all three login candidates answer 404, \<open>login\<close> throws the not-found message of
  the last path. \<open>login\<close> throws exactly when no candidate is usable, and then the message is
  the last one recorded, or \<open>Login failed\<close> when no candidate recorded one.
\<close>

theorem login_exhausted_error:
  "((\<forall>e \<in> set login_endpoints. \<exists>res. fetch e (JSON_stringify (creds_json creds)) = Inr res \<and> status res = 404) \<longrightarrow>
      login fetch creds s =
        (Inl (Exn (js ''Not found: /api/auth/token/obtain/'')), s\<lparr>requests := requests s @ login_endpoints\<rparr>)) \<and>
   ((\<exists>err s1. login fetch creds s = (Inl err, s1)) = (\<forall>e \<in> set login_endpoints. \<not> usable fetch creds e)) \<and>
   (login fetch creds s = (Inl err, s1) \<longrightarrow>
      message err =
        (case last_recorded (login_iteration fetch creds) login_endpoints of
           None \<Rightarrow> js ''Login failed'' | Some m \<Rightarrow> m))"
proof (intro conjI impI)
  assume a: "\<forall>e \<in> set login_endpoints. \<exists>res. fetch e (JSON_stringify (creds_json creds)) = Inr res \<and> status res = 404"
  then obtain r1 r2 r3 where
    "fetch (js ''/api/auth/token/'') (JSON_stringify (creds_json creds)) = Inr r1" "status r1 = 404"
    "fetch (js ''/api/auth/login/'') (JSON_stringify (creds_json creds)) = Inr r2" "status r2 = 404"
    "fetch (js ''/api/auth/token/obtain/'') (JSON_stringify (creds_json creds)) = Inr r3" "status r3 = 404"
    by (auto simp: login_endpoints_def)
  then show "login fetch creds s =
        (Inl (Exn (js ''Not found: /api/auth/token/obtain/'')), s\<lparr>requests := requests s @ login_endpoints\<rparr>)"
    by (simp add: login_def login_endpoints_def login_iteration_404)
next
  show "(\<exists>err s1. login fetch creds s = (Inl err, s1)) = (\<forall>e \<in> set login_endpoints. \<not> usable fetch creds e)"
    by (rule login_throws_iff)
next
  assume "login fetch creds s = (Inl err, s1)"
  then show "message err =
        (case last_recorded (login_iteration fetch creds) login_endpoints of
           None \<Rightarrow> js ''Login failed'' | Some m \<Rightarrow> m)"
    by (rule login_thrown_message)
qed

theorem login_exhausted_error_witness:
  "always (json_response 404 JNull) (js ''/api/auth/token/'') (JSON_stringify (creds_json alice)) = Inr (json_response 404 JNull) \<and>
   always (json_response 404 JNull) (js ''/api/auth/login/'') (JSON_stringify (creds_json alice)) = Inr (json_response 404 JNull) \<and>
   always (json_response 404 JNull) (js ''/api/auth/token/obtain/'') (JSON_stringify (creds_json alice)) = Inr (json_response 404 JNull) \<and>
   status (json_response 404 JNull) = 404 \<and>
   login (always (json_response 404 JNull)) alice signed_out =
     (Inl (Exn (js ''Not found: /api/auth/token/obtain/'')),
      \<lparr>token = JNull, user = JNull,
       requests = [js ''/api/auth/token/'', js ''/api/auth/login/'', js ''/api/auth/token/obtain/'']\<rparr>) \<and>
   last_recorded (login_iteration (always (json_response 404 JNull)) alice) login_endpoints =
     Some (js ''Not found: /api/auth/token/obtain/'') \<and>
   login (always (html_response 500)) alice signed_out =
     (Inl (Exn (js ''Login failed'')),
      \<lparr>token = JNull, user = JNull,
       requests = [js ''/api/auth/token/'', js ''/api/auth/login/'', js ''/api/auth/token/obtain/'']\<rparr>) \<and>
   last_recorded (login_iteration (always (html_response 500)) alice) login_endpoints = None"
  using login_exhausted_error[of "always (json_response 404 JNull)" alice signed_out
      "Exn (js ''Not found: /api/auth/token/obtain/'')"
      "\<lparr>token = JNull, user = JNull,
       requests = [js ''/api/auth/token/'', js ''/api/auth/login/'', js ''/api/auth/token/obtain/'']\<rparr>"]
    login_exhausted_error[of "always (html_response 500)" alice signed_out
      "Exn (js ''Login failed'')"
      "\<lparr>token = JNull, user = JNull,
       requests = [js ''/api/auth/token/'', js ''/api/auth/login/'', js ''/api/auth/token/obtain/'']\<rparr>"]
  by (simp add: run_defs last_recorded_def recorded_def List.map_filter_def)

text \<open>
  Claim C6, as amended. Whenever some candidate returns a successful response whose body parses
  as JSON to a value other than \<open>null\<close>, \<open>login\<close> completes without an error; the token it
  commits is, of \<open>access\<close>, \<open>token\<close> and \<open>auth_token\<close> of the winning body, the first that
  is present with a value other than \<open>null\<close>, and \<open>null\<close> when none is.
\<close>

theorem token_precedence:
  "((\<exists>e \<in> set login_endpoints. usable fetch creds e) \<longrightarrow> (\<exists>s1. login fetch creds s = (Inr (), s1))) \<and>
   (login fetch creds s = (Inr (), s1) \<longrightarrow>
    fetch (last (requests s1)) (JSON_stringify (creds_json creds)) = Inr res \<longrightarrow>
    json_result res = Inr data \<longrightarrow>
      token s1 = token_by_precedence data \<and>
      (present data (js ''access'') = None \<and> present data (js ''token'') = None \<and> present data (js ''auth_token'') = None
         \<longrightarrow> token s1 = JNull))"
proof (intro conjI impI)
  assume "\<exists>e \<in> set login_endpoints. usable fetch creds e"
  then show "\<exists>s1. login fetch creds s = (Inr (), s1)"
    using login_returns_if_usable by blast
next
  assume a: "login fetch creds s = (Inr (), s1)"
    "fetch (last (requests s1)) (JSON_stringify (creds_json creds)) = Inr res"
    "json_result res = Inr data"
  from login_returned_winner[OF a(1)] a(2,3)
  have "data \<noteq> JNull" "extract_token data = Inr (token s1)" by auto
  then show t: "token s1 = token_by_precedence data"
    by (simp add: extract_token_precedence)
  assume "present data (js ''access'') = None \<and> present data (js ''token'') = None \<and> present data (js ''auth_token'') = None"
  with t show "token s1 = JNull" by (simp add: token_by_precedence_def)
qed

theorem token_precedence_witness:
  "usable (always (json_response 200 (JObj [(js ''access'', JNull), (js ''token'', JStr (js ''t1''))]))) alice (js ''/api/auth/token/'') \<and>
   login (always (json_response 200 (JObj [(js ''access'', JNull), (js ''token'', JStr (js ''t1''))]))) alice signed_out =
     (Inr (), \<lparr>token = JStr (js ''t1''), user = JObj [(js ''username'', JStr (js ''alice''))], requests = [js ''/api/auth/token/'']\<rparr>) \<and>
   token_by_precedence (JObj [(js ''access'', JNull), (js ''token'', JStr (js ''t1''))]) = JStr (js ''t1'') \<and>
   login (always (json_response 200 (JNum (Finite (js ''7''))))) alice signed_out =
     (Inr (), \<lparr>token = JNull, user = JObj [(js ''username'', JStr (js ''alice''))], requests = [js ''/api/auth/token/'']\<rparr>) \<and>
   present (JNum (Finite (js ''7''))) (js ''access'') = None \<and> present (JNum (Finite (js ''7''))) (js ''token'') = None \<and> present (JNum (Finite (js ''7''))) (js ''auth_token'') = None"
  using token_precedence[of "always (json_response 200 (JObj [(js ''access'', JNull), (js ''token'', JStr (js ''t1''))]))"
      alice signed_out
      "\<lparr>token = JStr (js ''t1''), user = JObj [(js ''username'', JStr (js ''alice''))], requests = [js ''/api/auth/token/'']\<rparr>"
      "json_response 200 (JObj [(js ''access'', JNull), (js ''token'', JStr (js ''t1''))])"
      "JObj [(js ''access'', JNull), (js ''token'', JStr (js ''t1''))]"]
    token_precedence[of "always (json_response 200 (JNum (Finite (js ''7''))))" alice signed_out
      "\<lparr>token = JNull, user = JObj [(js ''username'', JStr (js ''alice''))], requests = [js ''/api/auth/token/'']\<rparr>"
      "json_response 200 (JNum (Finite (js ''7'')))" "JNum (Finite (js ''7''))"]
  by (simp add: run_defs usable_def present_def token_by_precedence_def)

text \<open>
  Claim C6 as stated fails: a successful response whose body is the JSON value \<open>null\<close> has
  none of the three fields, and \<open>login\<close> throws.
\<close>

theorem token_precedence_counterexample:
  "always (json_response 200 JNull) (js ''/api/auth/token/'') (JSON_stringify (creds_json alice)) =
     Inr (json_response 200 JNull) \<and>
   ok (json_response 200 JNull) \<and>
   json_result (json_response 200 JNull) = Inr JNull \<and>
   \<not> has_field JNull (js ''access'') \<and> \<not> has_field JNull (js ''token'') \<and> \<not> has_field JNull (js ''auth_token'') \<and>
   login (always (json_response 200 JNull)) alice signed_out =
     (Inl (Exn (null_property_message (js ''access''))),
      \<lparr>token = JNull, user = JNull,
       requests = [js ''/api/auth/token/'', js ''/api/auth/login/'', js ''/api/auth/token/obtain/'']\<rparr>)"
  by (simp add: run_defs has_field_def)

text \<open>
  Claim C7. When \<open>login\<close> returns and the body of the response it committed has neither a
  \<open>user\<close> nor a \<open>username\<close> field, the user record is \<open>{username: <submitted username>}\<close>;
  and an iteration that meets such a body (other than \<open>null\<close>) in a successful response does
  commit it.
\<close>

theorem submitted_username_fallback:
  "(login fetch creds s = (Inr (), s1) \<longrightarrow>
    fetch (last (requests s1)) (JSON_stringify (creds_json creds)) = Inr res \<longrightarrow>
    json_result res = Inr data \<longrightarrow> \<not> has_field data (js ''user'') \<longrightarrow> \<not> has_field data (js ''username'') \<longrightarrow>
      user s1 = JObj [(js ''username'', JStr (username creds))]) \<and>
   (fetch e (JSON_stringify (creds_json creds)) = Inr res2 \<longrightarrow> ok res2 \<longrightarrow>
    json_result res2 = Inr data2 \<longrightarrow> data2 \<noteq> JNull \<longrightarrow>
    \<not> has_field data2 (js ''user'') \<longrightarrow> \<not> has_field data2 (js ''username'') \<longrightarrow>
      (\<exists>s2. login_iteration fetch creds e le s = (Return, s2) \<and>
         user s2 = JObj [(js ''username'', JStr (username creds))]))"
proof (intro conjI impI)
  assume a: "login fetch creds s = (Inr (), s1)"
    "fetch (last (requests s1)) (JSON_stringify (creds_json creds)) = Inr res"
    "json_result res = Inr data" "\<not> has_field data (js ''user'')" "\<not> has_field data (js ''username'')"
  from login_returned_winner[OF a(1)] a(2,3)
  have "data \<noteq> JNull"
    "or_else (extract_user data) (JObj [(js ''username'', JStr (username creds))]) = Inr (user s1)"
    by auto
  with a(4,5) show "user s1 = JObj [(js ''username'', JStr (username creds))]"
    by (simp add: extract_user_absent)
next
  assume a: "fetch e (JSON_stringify (creds_json creds)) = Inr res2" "ok res2"
    "json_result res2 = Inr data2" "data2 \<noteq> JNull"
    "\<not> has_field data2 (js ''user'')" "\<not> has_field data2 (js ''username'')"
  from login_iteration_usable[of fetch e creds res2 data2 le s, OF a(1-4)] a(4-6)
  show "\<exists>s2. login_iteration fetch creds e le s = (Return, s2) \<and>
         user s2 = JObj [(js ''username'', JStr (username creds))]"
    by (auto simp: extract_user_absent)
qed

theorem submitted_username_fallback_witness:
  "login (always (json_response 200 (JObj [(js ''access'', JStr (js ''abc123''))]))) alice signed_out =
     (Inr (), \<lparr>token = JStr (js ''abc123''), user = JObj [(js ''username'', JStr (js ''alice''))], requests = [js ''/api/auth/token/'']\<rparr>) \<and>
   \<not> has_field (JObj [(js ''access'', JStr (js ''abc123''))]) (js ''user'') \<and>
   \<not> has_field (JObj [(js ''access'', JStr (js ''abc123''))]) (js ''username'') \<and>
   ok (json_response 200 (JObj [(js ''access'', JStr (js ''abc123''))])) \<and>
   login_iteration (always (json_response 200 (JObj [(js ''access'', JStr (js ''abc123''))]))) alice (js ''/api/auth/login/'') None signed_out =
     (Return, \<lparr>token = JStr (js ''abc123''), user = JObj [(js ''username'', JStr (js ''alice''))], requests = [js ''/api/auth/login/'']\<rparr>)"
  using submitted_username_fallback[of "always (json_response 200 (JObj [(js ''access'', JStr (js ''abc123''))]))"
      alice signed_out
      "\<lparr>token = JStr (js ''abc123''), user = JObj [(js ''username'', JStr (js ''alice''))], requests = [js ''/api/auth/token/'']\<rparr>"
      "json_response 200 (JObj [(js ''access'', JStr (js ''abc123''))])"
      "JObj [(js ''access'', JStr (js ''abc123''))]"
      "js ''/api/auth/login/''"
      "json_response 200 (JObj [(js ''access'', JStr (js ''abc123''))])"
      "JObj [(js ''access'', JStr (js ''abc123''))]" None]
  by (simp add: run_defs has_field_def)

text \<open>
  Claim C8, as amended. For a session committed by a successful \<open>login\<close> whose token is
  absent or a non-empty string and whose user record is truthy and holds only numbers that
  are read back from what \<open>JSON.stringify\<close> writes for them, the effects on a storage that
  can be read and written leave the token itself under \<open>auth_token\<close> (nothing when it is
  absent) and the serialized user record under \<open>auth_user\<close>, and initialisation from that
  storage gives the same token and user record. The user record is a value as the platform
  builds it (\<open>wf_json\<close>).
\<close>

theorem persisted_session_reloads:
  assumes "login fetch creds s0 = (Inr (), s)"
    and "readable st" and "writable st"
    and "token s = JNull \<or> (\<exists>t. token s = JStr t \<and> t \<noteq> [])"
    and "truthy (user s)" and "wf_json (user s)" and "numbers_read_back rd (user s)"
  shows "items (persist s st) TOKEN_KEY = (if token s = JNull then None else Some (ToString (token s))) \<and>
     items (persist s st) USER_KEY = Some (JSON_stringify (user s)) \<and>
     AuthProvider_init rd (persist s st) = Inr \<lparr>token = token s, user = user s, requests = []\<rparr>"
proof -
  have "AuthProvider_init rd (persist s st) = Inr \<lparr>token = token s, user = user s, requests = []\<rparr>"
    using assms(2-7) by (rule init_after_persist)
  moreover have "items (persist s st) TOKEN_KEY = (if token s = JNull then None else Some (ToString (token s)))"
    using assms(3,4) keys_differ by (auto simp: persist_items)
  moreover have "items (persist s st) USER_KEY = Some (JSON_stringify (user s))"
    using assms(3,5) by (simp add: persist_items)
  ultimately show ?thesis by simp
qed

theorem persisted_session_reloads_witness:
  "login (always (json_response 200 (JObj [(js ''access'', JStr (js ''abc123'')), (js ''user'', JObj [(js ''username'', JStr (js ''alice'')), (js ''visits'', JNum (Finite (js ''42'')))])])))
     alice signed_out =
     (Inr (), \<lparr>token = JStr (js ''abc123''), user = JObj [(js ''username'', JStr (js ''alice'')), (js ''visits'', JNum (Finite (js ''42'')))],
       requests = [js ''/api/auth/token/'']\<rparr>) \<and>
   readable empty_storage \<and> writable empty_storage \<and>
   truthy (JObj [(js ''username'', JStr (js ''alice'')), (js ''visits'', JNum (Finite (js ''42'')))]) \<and>
   wf_json (JObj [(js ''username'', JStr (js ''alice'')), (js ''visits'', JNum (Finite (js ''42'')))]) \<and>
   numbers_read_back reads_as_written (JObj [(js ''username'', JStr (js ''alice'')), (js ''visits'', JNum (Finite (js ''42'')))]) \<and>
   items (persist \<lparr>token = JStr (js ''abc123''), user = JObj [(js ''username'', JStr (js ''alice'')), (js ''visits'', JNum (Finite (js ''42'')))],
       requests = [js ''/api/auth/token/'']\<rparr> empty_storage) (js ''auth_token'') = Some (js ''abc123'') \<and>
   items (persist \<lparr>token = JStr (js ''abc123''), user = JObj [(js ''username'', JStr (js ''alice'')), (js ''visits'', JNum (Finite (js ''42'')))],
       requests = [js ''/api/auth/token/'']\<rparr> empty_storage) (js ''auth_user'') =
     Some (js ''{\"username\":\"alice\",\"visits\":42}'') \<and>
   AuthProvider_init reads_as_written (persist \<lparr>token = JStr (js ''abc123''), user = JObj [(js ''username'', JStr (js ''alice'')), (js ''visits'', JNum (Finite (js ''42'')))],
       requests = [js ''/api/auth/token/'']\<rparr> empty_storage) =
     Inr \<lparr>token = JStr (js ''abc123''), user = JObj [(js ''username'', JStr (js ''alice'')), (js ''visits'', JNum (Finite (js ''42'')))], requests = []\<rparr>"
proof -
  have l: "login (always (json_response 200 (JObj [(js ''access'', JStr (js ''abc123'')), (js ''user'', JObj [(js ''username'', JStr (js ''alice'')), (js ''visits'', JNum (Finite (js ''42'')))])])))
     alice signed_out =
     (Inr (), \<lparr>token = JStr (js ''abc123''), user = JObj [(js ''username'', JStr (js ''alice'')), (js ''visits'', JNum (Finite (js ''42'')))],
       requests = [js ''/api/auth/token/'']\<rparr>)"
    by (simp add: run_defs)
  have r: "readable empty_storage" "writable empty_storage" by (simp_all add: empty_storage_def)
  have t: "token \<lparr>token = JStr (js ''abc123''), user = JObj [(js ''username'', JStr (js ''alice'')), (js ''visits'', JNum (Finite (js ''42'')))],
       requests = [js ''/api/auth/token/'']\<rparr> = JNull \<or>
     (\<exists>t. token \<lparr>token = JStr (js ''abc123''), user = JObj [(js ''username'', JStr (js ''alice'')), (js ''visits'', JNum (Finite (js ''42'')))],
       requests = [js ''/api/auth/token/'']\<rparr> = JStr t \<and> t \<noteq> [])"
    by simp
  have u: "truthy (user \<lparr>token = JStr (js ''abc123''), user = JObj [(js ''username'', JStr (js ''alice'')), (js ''visits'', JNum (Finite (js ''42'')))],
       requests = [js ''/api/auth/token/'']\<rparr>)"
    "wf_json (user \<lparr>token = JStr (js ''abc123''), user = JObj [(js ''username'', JStr (js ''alice'')), (js ''visits'', JNum (Finite (js ''42'')))],
       requests = [js ''/api/auth/token/'']\<rparr>)"
    "numbers_read_back reads_as_written (user \<lparr>token = JStr (js ''abc123''), user = JObj [(js ''username'', JStr (js ''alice'')), (js ''visits'', JNum (Finite (js ''42'')))],
       requests = [js ''/api/auth/token/'']\<rparr>)"
    using wf_alice_visits read_back_alice_visits by simp_all
  from persisted_session_reloads[OF l r t u] l r u show ?thesis
    by (simp add: TOKEN_KEY_def USER_KEY_def stringify_alice_visits
        del: JSON_stringify.simps wf_json.simps numbers_read_back.simps)
qed

text \<open>
  Claim C8 as stated fails: a successful response with the empty string as \<open>access\<close> commits
  the token \<open>""\<close>; the effect removes the entry, and the reload gives \<open>null\<close> for the token.
  Likewise a token that is a number is reloaded as a string, a user record \<open>false\<close> is
  reloaded as \<open>null\<close>, and a user record that holds the number of the literal \<open>1e400\<close> is
  reloaded with \<open>null\<close> in its place.
\<close>

theorem persisted_session_counterexample:
  "login (always (json_response 200 (JObj [(js ''access'', JStr [])]))) alice signed_out =
     (Inr (), \<lparr>token = JStr [], user = JObj [(js ''username'', JStr (js ''alice''))], requests = [js ''/api/auth/token/'']\<rparr>) \<and>
   AuthProvider_init reads_as_written
     (persist \<lparr>token = JStr [], user = JObj [(js ''username'', JStr (js ''alice''))], requests = [js ''/api/auth/token/'']\<rparr>
        empty_storage) =
     Inr \<lparr>token = JNull, user = JObj [(js ''username'', JStr (js ''alice''))], requests = []\<rparr> \<and>
   login (always (json_response 200 (JObj [(js ''access'', JNum (Finite (js ''7'')))]))) alice signed_out =
     (Inr (), \<lparr>token = JNum (Finite (js ''7'')), user = JObj [(js ''username'', JStr (js ''alice''))],
              requests = [js ''/api/auth/token/'']\<rparr>) \<and>
   AuthProvider_init reads_as_written
     (persist \<lparr>token = JNum (Finite (js ''7'')), user = JObj [(js ''username'', JStr (js ''alice''))],
              requests = [js ''/api/auth/token/'']\<rparr>
        empty_storage) =
     Inr \<lparr>token = JStr (js ''7''), user = JObj [(js ''username'', JStr (js ''alice''))], requests = []\<rparr> \<and>
   login (always (json_response 200 (JObj [(js ''access'', JStr (js ''abc123'')), (js ''user'', JBool False)])))
     alice signed_out =
     (Inr (), \<lparr>token = JStr (js ''abc123''), user = JBool False, requests = [js ''/api/auth/token/'']\<rparr>) \<and>
   AuthProvider_init reads_as_written
     (persist \<lparr>token = JStr (js ''abc123''), user = JBool False, requests = [js ''/api/auth/token/'']\<rparr> empty_storage) =
     Inr \<lparr>token = JStr (js ''abc123''), user = JNull, requests = []\<rparr> \<and>
   login (always (json_response 200
       (JObj [(js ''access'', JStr (js ''abc123'')),
              (js ''user'', JObj [(js ''username'', JStr (js ''alice'')), (js ''score'', JNum PosInfinity)])])))
     alice signed_out =
     (Inr (), \<lparr>token = JStr (js ''abc123''),
              user = JObj [(js ''username'', JStr (js ''alice'')), (js ''score'', JNum PosInfinity)],
              requests = [js ''/api/auth/token/'']\<rparr>) \<and>
   AuthProvider_init reads_as_written
     (persist \<lparr>token = JStr (js ''abc123''),
              user = JObj [(js ''username'', JStr (js ''alice'')), (js ''score'', JNum PosInfinity)],
              requests = [js ''/api/auth/token/'']\<rparr> empty_storage) =
     Inr \<lparr>token = JStr (js ''abc123''),
          user = JObj [(js ''username'', JStr (js ''alice'')), (js ''score'', JNull)], requests = []\<rparr>"
proof -
  have 1: "login (always (json_response 200 (JObj [(js ''access'', JStr [])]))) alice signed_out =
     (Inr (), \<lparr>token = JStr [], user = JObj [(js ''username'', JStr (js ''alice''))], requests = [js ''/api/auth/token/'']\<rparr>)"
    by (simp add: run_defs)
  have 2: "AuthProvider_init reads_as_written
     (persist \<lparr>token = JStr [], user = JObj [(js ''username'', JStr (js ''alice''))], requests = [js ''/api/auth/token/'']\<rparr>
        empty_storage) =
     Inr \<lparr>token = JNull, user = JObj [(js ''username'', JStr (js ''alice''))], requests = []\<rparr>"
    using keys_differ
    by (simp add: persist_items empty_storage_def AuthProvider_init_def init_token_def init_user_def
        try_catch_def getItem_def stringify_alice parse_alice
        del: JSON_stringify.simps)
  have 3: "login (always (json_response 200 (JObj [(js ''access'', JNum (Finite (js ''7'')))]))) alice signed_out =
     (Inr (), \<lparr>token = JNum (Finite (js ''7'')), user = JObj [(js ''username'', JStr (js ''alice''))],
              requests = [js ''/api/auth/token/'']\<rparr>)"
    by (simp add: run_defs)
  have 4: "AuthProvider_init reads_as_written
     (persist \<lparr>token = JNum (Finite (js ''7'')), user = JObj [(js ''username'', JStr (js ''alice''))],
              requests = [js ''/api/auth/token/'']\<rparr>
        empty_storage) =
     Inr \<lparr>token = JStr (js ''7''), user = JObj [(js ''username'', JStr (js ''alice''))], requests = []\<rparr>"
    using keys_differ
    by (simp add: persist_items empty_storage_def AuthProvider_init_def init_token_def init_user_def
        try_catch_def getItem_def stringify_alice parse_alice number_truthy_def number_text_def
        del: JSON_stringify.simps)
  have 5: "login (always (json_response 200 (JObj [(js ''access'', JStr (js ''abc123'')), (js ''user'', JBool False)])))
     alice signed_out =
     (Inr (), \<lparr>token = JStr (js ''abc123''), user = JBool False, requests = [js ''/api/auth/token/'']\<rparr>)"
    by (simp add: run_defs)
  have 6: "AuthProvider_init reads_as_written
     (persist \<lparr>token = JStr (js ''abc123''), user = JBool False, requests = [js ''/api/auth/token/'']\<rparr> empty_storage) =
     Inr \<lparr>token = JStr (js ''abc123''), user = JNull, requests = []\<rparr>"
    using keys_differ
    by (simp add: persist_items empty_storage_def AuthProvider_init_def init_token_def init_user_def
        try_catch_def getItem_def)
  have 7: "login (always (json_response 200
       (JObj [(js ''access'', JStr (js ''abc123'')),
              (js ''user'', JObj [(js ''username'', JStr (js ''alice'')), (js ''score'', JNum PosInfinity)])])))
     alice signed_out =
     (Inr (), \<lparr>token = JStr (js ''abc123''),
              user = JObj [(js ''username'', JStr (js ''alice'')), (js ''score'', JNum PosInfinity)],
              requests = [js ''/api/auth/token/'']\<rparr>)"
    by (simp add: run_defs)
  have 8: "AuthProvider_init reads_as_written
     (persist \<lparr>token = JStr (js ''abc123''),
              user = JObj [(js ''username'', JStr (js ''alice'')), (js ''score'', JNum PosInfinity)],
              requests = [js ''/api/auth/token/'']\<rparr> empty_storage) =
     Inr \<lparr>token = JStr (js ''abc123''),
          user = JObj [(js ''username'', JStr (js ''alice'')), (js ''score'', JNull)], requests = []\<rparr>"
    using keys_differ
    by (simp add: persist_items empty_storage_def AuthProvider_init_def init_token_def init_user_def
        try_catch_def getItem_def stringify_alice_score parse_alice_score
        del: JSON_stringify.simps)
  from 1 2 3 4 5 6 7 8 show ?thesis by (intro conjI)
qed

text \<open>
  Claim C9. Initialisation always yields a session: a throwing read, a missing key and a user
  entry that does not parse each give \<open>null\<close> for the cell concerned, and a storage with
  neither entry gives the anonymous session.
\<close>

theorem initialisation_never_fails:
  "(\<exists>s. AuthProvider_init rd st = Inr s) \<and>
   (getItem st TOKEN_KEY = Inl err \<longrightarrow> init_token st = Inr JNull) \<and>
   (getItem st TOKEN_KEY = Inr None \<longrightarrow> init_token st = Inr JNull) \<and>
   (getItem st USER_KEY = Inl err \<longrightarrow> init_user rd st = Inr JNull) \<and>
   (getItem st USER_KEY = Inr None \<longrightarrow> init_user rd st = Inr JNull) \<and>
   (getItem st USER_KEY = Inr (Some raw) \<longrightarrow> JSON_parse rd raw = Inl err \<longrightarrow> init_user rd st = Inr JNull) \<and>
   (getItem st TOKEN_KEY = Inr None \<longrightarrow> getItem st USER_KEY = Inr None \<longrightarrow>
      AuthProvider_init rd st = Inr \<lparr>token = JNull, user = JNull, requests = []\<rparr>)"
proof (intro conjI impI)
  obtain t u where "init_token st = Inr t" "init_user rd st = Inr u"
    using init_token_total init_user_total by blast
  then show "\<exists>s. AuthProvider_init rd st = Inr s" by (simp add: AuthProvider_init_def)
qed (simp_all add: AuthProvider_init_def init_token_def init_user_def try_catch_def)

theorem initialisation_never_fails_witness:
  "AuthProvider_init reads_as_written corrupt_storage = Inr \<lparr>token = JStr (js ''abc123''), user = JNull, requests = []\<rparr> \<and>
   getItem corrupt_storage USER_KEY = Inr (Some (js ''{bad'')) \<and>
   JSON_parse reads_as_written (js ''{bad'') = Inl (Exn (js ''Unexpected token in JSON'')) \<and>
   getItem (empty_storage\<lparr>readable := False\<rparr>) TOKEN_KEY = Inl (Exn (js ''SecurityError'')) \<and>
   getItem (empty_storage\<lparr>readable := False\<rparr>) USER_KEY = Inl (Exn (js ''SecurityError'')) \<and>
   AuthProvider_init reads_as_written (empty_storage\<lparr>readable := False\<rparr>) = Inr \<lparr>token = JNull, user = JNull, requests = []\<rparr> \<and>
   getItem empty_storage TOKEN_KEY = Inr None \<and>
   getItem empty_storage USER_KEY = Inr None \<and>
   AuthProvider_init reads_as_written empty_storage = Inr \<lparr>token = JNull, user = JNull, requests = []\<rparr>"
  using initialisation_never_fails[of reads_as_written corrupt_storage "Exn (js ''Unexpected token in JSON'')" "js ''{bad''"]
    initialisation_never_fails[of reads_as_written "empty_storage\<lparr>readable := False\<rparr>" "Exn (js ''SecurityError'')"]
    initialisation_never_fails[of reads_as_written empty_storage]
  by (simp add: AuthProvider_init_def init_token_def init_user_def try_catch_def getItem_def
      corrupt_storage_def empty_storage_def TOKEN_KEY_def USER_KEY_def parse_bad)

text \<open>
  Claim C10. When \<open>login\<close> or \<open>signup\<close> throws, the token and the user record are what they
  were before the call.
\<close>

theorem failure_leaves_session:
  "(login fetch creds s = (Inl err, s1) \<longrightarrow> token s1 = token s \<and> user s1 = user s) \<and>
   (signup fetch creds s = (Inl err2, s2) \<longrightarrow> token s2 = token s \<and> user s2 = user s)"
proof (intro conjI impI)
  assume "login fetch creds s = (Inl err, s1)"
  then obtain le where "for_endpoints (login_iteration fetch creds) login_endpoints None s = (Some le, s1)"
    by (auto simp: login_def split: prod.splits option.splits)
  from for_endpoints_exhausted[of "login_iteration fetch creds", OF login_iteration_continue this]
  show "token s1 = token s" "user s1 = user s" by simp_all
next
  assume "signup fetch creds s = (Inl err2, s2)"
  then obtain le where "for_endpoints (signup_iteration fetch creds) signup_endpoints None s = (Some le, s2)"
    by (auto simp: signup_def split: prod.splits option.splits)
  from for_endpoints_exhausted[of "signup_iteration fetch creds", OF signup_iteration_continue this]
  show "token s2 = token s" "user s2 = user s" by simp_all
qed

theorem failure_leaves_session_witness:
  "login (always (html_response 200)) alice \<lparr>token = JStr (js ''t0''), user = JStr (js ''u0''), requests = []\<rparr> =
     (Inl (Exn (js ''Unexpected token < in JSON'')),
      \<lparr>token = JStr (js ''t0''), user = JStr (js ''u0''),
       requests = [js ''/api/auth/token/'', js ''/api/auth/login/'', js ''/api/auth/token/obtain/'']\<rparr>) \<and>
   signup (always (html_response 200)) alice \<lparr>token = JStr (js ''t0''), user = JStr (js ''u0''), requests = []\<rparr> =
     (Inl (Exn (js ''Unexpected token < in JSON'')),
      \<lparr>token = JStr (js ''t0''), user = JStr (js ''u0''),
       requests = [js ''/api/auth/signup/'', js ''/api/auth/register/'']\<rparr>)"
  using failure_leaves_session[of "always (html_response 200)" alice
     "\<lparr>token = JStr (js ''t0''), user = JStr (js ''u0''), requests = []\<rparr>"
     "Exn (js ''Unexpected token < in JSON'')"
     "\<lparr>token = JStr (js ''t0''), user = JStr (js ''u0''),
       requests = [js ''/api/auth/token/'', js ''/api/auth/login/'', js ''/api/auth/token/obtain/'']\<rparr>"
     "Exn (js ''Unexpected token < in JSON'')"
     "\<lparr>token = JStr (js ''t0''), user = JStr (js ''u0''),
       requests = [js ''/api/auth/signup/'', js ''/api/auth/register/'']\<rparr>"]
  by (simp add: run_defs)

end
